theory Spec2Isabelle
  imports Main "HOL-Library.Word"
begin

unbundle bit_operations_syntax

section \<open>Values, wire values and errors\<close>

text \<open>
  A Go \<^verbatim>\<open>interface{}\<close> value is a dynamic type together with a value of that type.
  The constructors below are the dynamic types the type switch of \<^verbatim>\<open>EncodeValue\<close>
  names, \<^verbatim>\<open>nil\<close>, a slice or array of any element type other than \<^verbatim>\<open>[]byte\<close> (its
  elements as \<^verbatim>\<open>reflect\<close> hands them out) and one constructor for a value of any
  other dynamic type (a struct, a pointer, a map, an \<^verbatim>\<open>int8\<close>, ...), named by an opaque
  description.  Go's \<^verbatim>\<open>int\<close> is
  taken at its 64-bit width (amd64, arm64).  A floating-point number is carried as its
  IEEE-754 bit pattern: the codec never computes with it.
\<close>

datatype gval =
    GInt "64 word"
  | GInt16 "16 word"
  | GInt32 "32 word"
  | GInt64 "64 word"
  | GByte "8 word"
  | GBool bool
  | GFloat64 "64 word"
  | GFloat32 "32 word"
  | GBytes "8 word list"
  | GString string
  | GNil
  | GSlice "gval list"
  | GOther string

text \<open>
  The \<^verbatim>\<open>oneof\<close> of the wire schema's \<^verbatim>\<open>EncodedValue\<close>.  \<open>Unset\<close> stands for a
  \<^verbatim>\<open>nil\<close> message pointer as well as for a message whose \<^verbatim>\<open>Value\<close> field is
  \<^verbatim>\<open>nil\<close>: \<^verbatim>\<open>GetValue()\<close> returns \<^verbatim>\<open>nil\<close> for both.  \<open>UnknownResult\<close> is a
  variant the type switch of \<^verbatim>\<open>DecodeValue\<close> does not list, with the name of its type.
\<close>

datatype EncodedValue =
    IntResult "32 word"
  | ShortResult "32 word"
  | LongResult "64 word"
  | ByteResult "32 word"
  | BooleanResult bool
  | DoubleResult "64 word"
  | FloatResult "32 word"
  | BinaryResult "8 word list"
  | StringResult string
  | JsonObjectResult string
  | NullResult
  | Unset
  | UnknownResult string

text \<open>
  Go \<^verbatim>\<open>error\<close> values: the sentinels of package \<^verbatim>\<open>io\<close>, \<^verbatim>\<open>*net.OpError\<close> (its
  \<^verbatim>\<open>Op\<close>, the text between \<^verbatim>\<open>Op\<close> and the colon, and the wrapped error),
  \<^verbatim>\<open>errors.New\<close>, the repository's \<^verbatim>\<open>*RetryableError\<close>, the error
  \<^verbatim>\<open>json.Unmarshal\<close> gives for a destination that is no pointer, and a run-time panic.
\<close>

datatype go_error =
    IoEOF
  | IoErrUnexpectedEOF
  | NetOpError string string go_error
  | ErrorString string
  | RetryableError go_error
  | InvalidUnmarshalError
  | RuntimePanic string

fun Error_msg :: "go_error \<Rightarrow> string" where
  "Error_msg IoEOF = ''EOF''"
| "Error_msg IoErrUnexpectedEOF = ''unexpected EOF''"
| "Error_msg (NetOpError op detail err) = op @ detail @ '': '' @ Error_msg err"
| "Error_msg (ErrorString s) = s"
| "Error_msg (RetryableError err) = Error_msg err"
| "Error_msg InvalidUnmarshalError = ''json: Unmarshal(nil)''"
| "Error_msg (RuntimePanic s) = ''panic: '' @ s"

datatype fmt_arg =
    AString string
  | AInt int
  | AValue gval
  | AEncoded EncodedValue
  | AType string

section \<open>What the code calls outside the repository\<close>

datatype ConnectionProvider = serverConnectionProvider string int

datatype Message =
    GetAllRequest string "EncodedValue list"
  | GetAllResponse "(EncodedValue \<times> EncodedValue) list"
      "(EncodedValue \<times> (string \<times> 32 word) option) list"
  | ErrorResponse string "32 word"
  | OtherMessage string

text \<open>
  The libraries and the network are parameters of the model:
  \<^item> \<open>json_Marshal\<close> and \<open>json_Unmarshal\<close> are \<^verbatim>\<open>encoding/json\<close> (the second returns
    the template after it has been filled in);
  \<^item> \<open>fmt_Sprintf\<close> is \<^verbatim>\<open>fmt.Sprintf\<close>;
  \<^item> \<open>dial\<close> is what a provider's \<^verbatim>\<open>GetGeodeConnection\<close> gets from the network when it
    is asked at position \<open>i\<close> of the provider list for the connection object that would be
    allocated at the given address: a transport, or nothing;
  \<^item> \<open>handshake_io\<close> and \<open>authenticate_io\<close> are the exchanges a connection object makes
    with the server;
  \<^item> \<open>EncodeMessage\<close> is \<^verbatim>\<open>proto.Buffer.EncodeMessage\<close>, \<open>conn_Write\<close> is the
    transport's \<^verbatim>\<open>Write\<close> and \<open>conn_readResponse\<close> is the outcome of reading and
    decoding one length-prefixed message from the transport.
\<close>

record env =
  json_Marshal :: "gval \<Rightarrow> go_error + string"
  json_Unmarshal :: "string \<Rightarrow> gval \<Rightarrow> go_error + gval"
  fmt_Sprintf :: "string \<Rightarrow> fmt_arg list \<Rightarrow> string"
  dial :: "nat \<Rightarrow> ConnectionProvider \<Rightarrow> nat \<Rightarrow> nat option"
  handshake_io :: "nat \<Rightarrow> go_error option"
  authenticate_io :: "nat \<Rightarrow> string \<Rightarrow> string \<Rightarrow> go_error option"
  EncodeMessage :: "Message \<Rightarrow> go_error option"
  conn_Write :: "nat \<Rightarrow> Message \<Rightarrow> go_error option"
  conn_readResponse :: "nat \<Rightarrow> Message \<Rightarrow> go_error + Message"

section \<open>The value codec\<close>

text \<open>
  \<^verbatim>\<open>EncodeValue\<close>.  The conversions are Go's: \<^verbatim>\<open>int32(k)\<close> keeps the low 32 bits of an
  \<^verbatim>\<open>int\<close>, extends the sign of an \<^verbatim>\<open>int16\<close> and pads a \<^verbatim>\<open>byte\<close> with zeros.
\<close>

fun EncodeValue :: "env \<Rightarrow> gval \<Rightarrow> go_error + EncodedValue" where
  "EncodeValue e (GInt k) = Inr (IntResult (scast k))"
| "EncodeValue e (GInt16 k) = Inr (ShortResult (scast k))"
| "EncodeValue e (GInt32 k) = Inr (IntResult k)"
| "EncodeValue e (GInt64 k) = Inr (LongResult k)"
| "EncodeValue e (GByte k) = Inr (ByteResult (ucast k))"
| "EncodeValue e (GBool k) = Inr (BooleanResult k)"
| "EncodeValue e (GFloat64 k) = Inr (DoubleResult k)"
| "EncodeValue e (GFloat32 k) = Inr (FloatResult k)"
| "EncodeValue e (GBytes k) = Inr (BinaryResult k)"
| "EncodeValue e (GString k) = Inr (StringResult k)"
| "EncodeValue e GNil = Inr NullResult"
| "EncodeValue e k =
     (case json_Marshal e k of
        Inl err \<Rightarrow> Inl err
      | Inr j \<Rightarrow> Inr (JsonObjectResult j))"

text \<open>
  \<^verbatim>\<open>json.Unmarshal\<close> as \<^verbatim>\<open>DecodeValue\<close> calls it.  The standard library refuses a
  \<^verbatim>\<open>nil\<close> destination: after it has checked the text (whose error, if any, comes
  first) it returns an \<^verbatim>\<open>InvalidUnmarshalError\<close>.
\<close>

definition Unmarshal :: "env \<Rightarrow> string \<Rightarrow> gval \<Rightarrow> go_error + gval" where
  "Unmarshal e j ref =
     (if ref = GNil then
        (case json_Unmarshal e j GNil of
           Inl err \<Rightarrow> Inl err
         | Inr _ \<Rightarrow> Inl InvalidUnmarshalError)
      else json_Unmarshal e j ref)"

fun DecodeValue :: "env \<Rightarrow> EncodedValue \<Rightarrow> gval \<Rightarrow> go_error + gval" where
  "DecodeValue e (IntResult v) ref = Inr (GInt32 v)"
| "DecodeValue e (ShortResult v) ref = Inr (GInt32 v)"
| "DecodeValue e (LongResult v) ref = Inr (GInt64 v)"
| "DecodeValue e (ByteResult v) ref = Inr (GByte (ucast v))"
| "DecodeValue e (BooleanResult v) ref = Inr (GBool v)"
| "DecodeValue e (DoubleResult v) ref = Inr (GFloat64 v)"
| "DecodeValue e (FloatResult v) ref = Inr (GFloat32 v)"
| "DecodeValue e (BinaryResult v) ref = Inr (GBytes v)"
| "DecodeValue e (StringResult v) ref = Inr (GString v)"
| "DecodeValue e (JsonObjectResult v) ref =
     (case Unmarshal e v ref of
        Inl err \<Rightarrow> Inl err
      | Inr filled \<Rightarrow> Inr filled)"
| "DecodeValue e NullResult ref = Inr GNil"
| "DecodeValue e Unset ref = Inr GNil"
| "DecodeValue e (UnknownResult t) ref =
     Inl (ErrorString (fmt_Sprintf e ''unable to decode type: %T'' [AType t]))"


text \<open>
  \<^verbatim>\<open>EncodeList\<close>: the loop over the elements, then the function.  \<^verbatim>\<open>reflect\<close> sees a
  slice or an array in \<open>GSlice\<close> and in \<open>GBytes\<close> (whose elements are bytes) only.
\<close>

fun EncodeList_loop :: "env \<Rightarrow> gval list \<Rightarrow> EncodedValue list \<Rightarrow> go_error + EncodedValue list" where
  "EncodeList_loop e [] encodedEntries = Inr encodedEntries"
| "EncodeList_loop e (x # xs) encodedEntries =
     (case EncodeValue e x of
        Inl err \<Rightarrow> Inl err
      | Inr key \<Rightarrow> EncodeList_loop e xs (encodedEntries @ [key]))"

fun slice_elems :: "gval \<Rightarrow> gval list option" where
  "slice_elems (GSlice xs) = Some xs"
| "slice_elems (GBytes bs) = Some (map GByte bs)"
| "slice_elems v = None"

definition EncodeList :: "env \<Rightarrow> gval \<Rightarrow> go_error + EncodedValue list" where
  "EncodeList e list =
     (case slice_elems list of
        None \<Rightarrow> Inl (ErrorString ''argument must be a slice or array'')
      | Some xs \<Rightarrow> EncodeList_loop e xs [])"

datatype EncodedValueList = EncodedValueList (Element: "EncodedValue list")

definition EncodeValueList :: "env \<Rightarrow> gval \<Rightarrow> go_error + EncodedValueList" where
  "EncodeValueList e list =
     (case EncodeList e list of
        Inl err \<Rightarrow> Inl err
      | Inr encodedList \<Rightarrow> Inr (EncodedValueList encodedList))"

text \<open>
  \<^verbatim>\<open>EncodeTable\<close>.  The argument is the Go map as the \<^verbatim>\<open>range\<close> loop meets it: its
  entries in the order of the iteration, which Go leaves open.  Both result slices are
  allocated at the map's length (strings empty, pointers \<^verbatim>\<open>nil\<close>) and written at
  \<open>idx\<close>.
\<close>

record Table =
  FieldName :: "string list"
  Row :: "EncodedValueList option list"

fun EncodeTable_loop ::
  "env \<Rightarrow> (string \<times> gval list) list \<Rightarrow> nat \<Rightarrow> string list \<Rightarrow> EncodedValueList option list
    \<Rightarrow> go_error + (string list \<times> EncodedValueList option list)" where
  "EncodeTable_loop e [] idx columnNames columns = Inr (columnNames, columns)"
| "EncodeTable_loop e ((k, v) # rest) idx columnNames columns =
     (case EncodeValueList e (GSlice v) of
        Inl err \<Rightarrow> Inl err
      | Inr list \<Rightarrow>
          EncodeTable_loop e rest (idx + 1) (columnNames[idx := k]) (columns[idx := Some list]))"

definition EncodeTable :: "env \<Rightarrow> (string \<times> gval list) list \<Rightarrow> go_error + Table" where
  "EncodeTable e table =
     (case EncodeTable_loop e table 0 (replicate (length table) [])
             (replicate (length table) None) of
        Inl err \<Rightarrow> Inl err
      | Inr (columnNames, columns) \<Rightarrow> Inr \<lparr>FieldName = columnNames, Row = columns\<rparr>)"

section \<open>The connection pool\<close>

text \<open>
  A \<^verbatim>\<open>*GeodeConnection\<close> is the index of the object in \<open>heap\<close>; objects are allocated
  at the end and never freed, so a new pointer differs from every older one.  A
  transport (\<^verbatim>\<open>net.Conn\<close>) is a handle; \<open>closedConns\<close> holds the handles that have been
  closed.  The state holds the fields of the one \<^verbatim>\<open>Pool\<close> (with its mutex: \<open>locked\<close>
  says that somebody holds it), the heap and the three package-level \<^verbatim>\<open>expvar\<close>
  counters, which are 64-bit integers.
\<close>

type_synonym addr = nat

record GeodeConnection =
  rawConn :: nat
  handshakeDone :: bool
  authenticationDone :: bool
  inUse :: bool

record state =
  locked :: bool
  recentConnections :: "addr list"
  providers :: "ConnectionProvider list"
  authenticationEnabled :: bool
  username :: string
  password :: string
  heap :: "GeodeConnection list"
  closedConns :: "nat set"
  activeConnections :: "64 word"
  connectionsCreated :: "64 word"
  discardedConnections :: "64 word"

definition NewPool :: state where
  "NewPool = \<lparr>locked = False, recentConnections = [], providers = [],
     authenticationEnabled = False, username = [], password = [], heap = [],
     closedConns = {}, activeConnections = 0, connectionsCreated = 0,
     discardedConnections = 0\<rparr>"

text \<open>
  \<^verbatim>\<open>Lock\<close> waits while the mutex is held.  In a run of one caller nobody releases it,
  so the caller never returns: \<open>None\<close>.
\<close>

definition Lock :: "state \<Rightarrow> state option" where
  "Lock s = (if locked s then None else Some (s\<lparr>locked := True\<rparr>))"

definition Unlock :: "state \<Rightarrow> state" where
  "Unlock s = s\<lparr>locked := False\<rparr>"

definition AddConnection :: "nat \<Rightarrow> bool \<Rightarrow> state \<Rightarrow> state" where
  "AddConnection c hsDone s =
     s\<lparr>heap := heap s @ [\<lparr>rawConn = c, handshakeDone = hsDone,
                          authenticationDone = False, inUse = False\<rparr>],
       recentConnections := recentConnections s @ [length (heap s)]\<rparr>"

definition AddLocator :: "string \<Rightarrow> int \<Rightarrow> state \<Rightarrow> state" where
  "AddLocator h p s = s"

definition AddServer :: "string \<Rightarrow> int \<Rightarrow> state \<Rightarrow> state" where
  "AddServer h p s = s\<lparr>providers := providers s @ [serverConnectionProvider h p]\<rparr>"

definition AddCredentials :: "string \<Rightarrow> string \<Rightarrow> state \<Rightarrow> state" where
  "AddCredentials u p s = s\<lparr>username := u, password := p, authenticationEnabled := True\<rparr>"

text \<open>
  Modelled from the spec: \<^verbatim>\<open>serverConnectionProvider.GetGeodeConnection\<close> is not among
  the sources.  A provider yields a usable connection, a new object whose three flags are
  clear, or signals that none is available.
\<close>

definition GetGeodeConnection ::
  "env \<Rightarrow> nat \<Rightarrow> ConnectionProvider \<Rightarrow> state \<Rightarrow> addr option \<times> state" where
  "GetGeodeConnection e i p s =
     (case dial e i p (length (heap s)) of
        None \<Rightarrow> (None, s)
      | Some c \<Rightarrow>
          (Some (length (heap s)),
           s\<lparr>heap := heap s @ [\<lparr>rawConn = c, handshakeDone = False,
                                authenticationDone = False, inUse = False\<rparr>]\<rparr>))"

text \<open>
  Modelled from the spec: \<^verbatim>\<open>GeodeConnection.handshake\<close> is not among the sources.  It
  does nothing on a connection whose handshake is completed; otherwise it runs the
  exchange and records its success.
\<close>

definition handshake :: "env \<Rightarrow> addr \<Rightarrow> state \<Rightarrow> go_error option \<times> state" where
  "handshake e gConn s =
     (if handshakeDone (heap s ! gConn) then (None, s)
      else (case handshake_io e gConn of
              Some err \<Rightarrow> (Some err, s)
            | None \<Rightarrow>
                (None, s\<lparr>heap := (heap s)[gConn := (heap s ! gConn)\<lparr>handshakeDone := True\<rparr>]\<rparr>)))"

text \<open>
  Modelled from the spec: \<^verbatim>\<open>GeodeConnection.authenticate\<close> is not among the sources.
  It is idempotent per connection.
\<close>

definition authenticate ::
  "env \<Rightarrow> addr \<Rightarrow> string \<Rightarrow> string \<Rightarrow> state \<Rightarrow> go_error option \<times> state" where
  "authenticate e gConn u p s =
     (if authenticationDone (heap s ! gConn) then (None, s)
      else (case authenticate_io e gConn u p of
              Some err \<Rightarrow> (Some err, s)
            | None \<Rightarrow>
                (None,
                 s\<lparr>heap := (heap s)[gConn := (heap s ! gConn)\<lparr>authenticationDone := True\<rparr>]\<rparr>)))"

text \<open>
  \<^verbatim>\<open>discardConnection\<close>: the first occurrence of the pointer leaves the membership
  (the loop breaks there), and the transport is closed, the error of \<^verbatim>\<open>Close\<close> dropped.
\<close>

definition discardConnection :: "addr \<Rightarrow> state \<Rightarrow> state" where
  "discardConnection gConn s =
     s\<lparr>recentConnections := remove1 gConn (recentConnections s),
       closedConns := insert (rawConn (heap s ! gConn)) (closedConns s)\<rparr>"

text \<open>The scan of \<^verbatim>\<open>GetConnection\<close>: no \<^verbatim>\<open>break\<close>, every idle connection overwrites \<open>gConn\<close>.\<close>

fun scan_recent :: "GeodeConnection list \<Rightarrow> addr list \<Rightarrow> addr option \<Rightarrow> addr option" where
  "scan_recent h [] gConn = gConn"
| "scan_recent h (c # cs) gConn =
     scan_recent h cs (if \<not> inUse (h ! c) then Some c else gConn)"

text \<open>
  The loop over the providers, from the last index down.  The first argument after the
  environment is \<open>i + 1\<close> for the loop variable \<open>i\<close>.
\<close>

fun ask_providers :: "env \<Rightarrow> nat \<Rightarrow> state \<Rightarrow> addr option \<times> state" where
  "ask_providers e 0 s = (None, s)"
| "ask_providers e (Suc i) s =
     (case GetGeodeConnection e i (providers s ! i) s of
        (Some gConn, s') \<Rightarrow> (Some gConn, s')
      | (None, s') \<Rightarrow>
          ask_providers e i
            (s'\<lparr>providers := take i (providers s') @ drop (Suc i) (providers s')\<rparr>))"

text \<open>
  \<^verbatim>\<open>GetConnection\<close> between \<^verbatim>\<open>Lock\<close> and the deferred \<^verbatim>\<open>Unlock\<close>, in two parts:
  first the choice of \<open>gConn\<close> (the scan, then the providers), then the rest from the
  test \<^verbatim>\<open>gConn == nil\<close> on.
\<close>

definition select_connection :: "env \<Rightarrow> state \<Rightarrow> addr option \<times> state" where
  "select_connection e s =
     (case scan_recent (heap s) (recentConnections s) None of
        Some c \<Rightarrow> (Some c, s)
      | None \<Rightarrow>
          (case ask_providers e (length (providers s)) s of
             (Some c, s') \<Rightarrow>
               (Some c, s'\<lparr>recentConnections := recentConnections s' @ [c],
                           connectionsCreated := connectionsCreated s' + 1\<rparr>)
           | (None, s') \<Rightarrow> (None, s')))"

definition GetConnection_locked :: "env \<Rightarrow> state \<Rightarrow> (go_error + addr) \<times> state" where
  "GetConnection_locked e s =
     (case select_connection e s of
        (None, s1) \<Rightarrow> (Inl (ErrorString ''no connections available''), s1)
      | (Some c, s1) \<Rightarrow>
          (case handshake e c s1 of
             (Some err, s2) \<Rightarrow> (Inl err, discardConnection c s2)
           | (None, s2) \<Rightarrow>
               (case (if authenticationEnabled s2
                      then authenticate e c (username s2) (password s2) s2
                      else (None, s2)) of
                  (Some err, s3) \<Rightarrow> (Inl err, discardConnection c s3)
                | (None, s3) \<Rightarrow>
                    (Inr c,
                     s3\<lparr>heap := (heap s3)[c := (heap s3 ! c)\<lparr>inUse := True\<rparr>],
                        activeConnections := activeConnections s3 + 1\<rparr>))))"

definition GetConnection :: "env \<Rightarrow> state \<Rightarrow> ((go_error + addr) \<times> state) option" where
  "GetConnection e s =
     (case Lock s of
        None \<Rightarrow> None
      | Some s1 \<Rightarrow> (case GetConnection_locked e s1 of (r, s2) \<Rightarrow> Some (r, Unlock s2)))"

definition ReturnConnection :: "addr \<Rightarrow> state \<Rightarrow> state option" where
  "ReturnConnection gConn s =
     (case Lock s of
        None \<Rightarrow> None
      | Some s1 \<Rightarrow>
          Some (Unlock (s1\<lparr>heap := (heap s1)[gConn := (heap s1 ! gConn)\<lparr>inUse := False\<rparr>],
                           activeConnections := activeConnections s1 - 1\<rparr>)))"

definition DiscardConnection :: "addr \<Rightarrow> state \<Rightarrow> state option" where
  "DiscardConnection gConn s =
     (case Lock s of
        None \<Rightarrow> None
      | Some s1 \<Rightarrow>
          (let s2 = Unlock (discardConnection gConn s1)
           in Some (s2\<lparr>discardedConnections := discardedConnections s2 + 1\<rparr>)))"


section \<open>The message-exchange engine\<close>

definition writeMessage :: "env \<Rightarrow> nat \<Rightarrow> Message \<Rightarrow> go_error option" where
  "writeMessage e connection message =
     (case EncodeMessage e message of
        Some err \<Rightarrow> Some err
      | None \<Rightarrow>
          (case conn_Write e connection message of
             None \<Rightarrow> None
           | Some err \<Rightarrow>
               (case err of
                  NetOpError op detail inner \<Rightarrow>
                    if op = ''write'' then Some (RetryableError err) else Some err
                | _ \<Rightarrow> Some err)))"

fun GetErrorResponse :: "Message \<Rightarrow> (string \<times> 32 word) option" where
  "GetErrorResponse (ErrorResponse m code) = Some (m, code)"
| "GetErrorResponse x = None"

definition doOperationWithConnection :: "env \<Rightarrow> nat \<Rightarrow> Message \<Rightarrow> go_error + Message" where
  "doOperationWithConnection e connection request =
     (case writeMessage e connection request of
        Some err \<Rightarrow> Inl err
      | None \<Rightarrow>
          (case conn_readResponse e connection request of
             Inl err \<Rightarrow>
               if Error_msg err = ''EOF'' then Inl (RetryableError err) else Inl err
           | Inr response \<Rightarrow>
               (case GetErrorResponse response of
                  Some (m, code) \<Rightarrow>
                    Inl (ErrorString (fmt_Sprintf e ''%s (%d)'' [AString m, AInt (sint code)]))
                | None \<Rightarrow> Inr response)))"

text \<open>The type assertion \<^verbatim>\<open>err.(*RetryableError)\<close>.\<close>

fun is_RetryableError :: "go_error \<Rightarrow> bool" where
  "is_RetryableError (RetryableError err) = True"
| "is_RetryableError err = False"

text \<open>
  \<^verbatim>\<open>doOperation\<close> calls itself without a bound, so the model takes fuel: the number of
  nested calls allowed.  \<open>None\<close> is a call that does not return, for want of fuel or
  because it waits for the pool's mutex.  The deferred \<^verbatim>\<open>ReturnConnection\<close> runs after
  the body has its result, the nested call included.
\<close>

fun doOperation ::
  "nat \<Rightarrow> env \<Rightarrow> Message \<Rightarrow> state \<Rightarrow> ((go_error + Message) \<times> state) option" where
  "doOperation 0 e request s = None"
| "doOperation (Suc n) e request s =
     (case GetConnection e s of
        None \<Rightarrow> None
      | Some (Inl err, s1) \<Rightarrow> Some (Inl err, s1)
      | Some (Inr gConn, s1) \<Rightarrow>
          (case
             (case doOperationWithConnection e (rawConn (heap s1 ! gConn)) request of
                Inr message \<Rightarrow> Some (Inr message, s1)
              | Inl err \<Rightarrow>
                  (case DiscardConnection gConn s1 of
                     None \<Rightarrow> None
                   | Some s2 \<Rightarrow>
                       if is_RetryableError err then doOperation n e request s2
                       else Some (Inl err, s2)))
           of
             None \<Rightarrow> None
           | Some (r, s3) \<Rightarrow>
               (case ReturnConnection gConn s3 of
                  None \<Rightarrow> None
                | Some s4 \<Rightarrow> Some (r, s4))))"

section \<open>GetAll\<close>

text \<open>
  Go's \<^verbatim>\<open>==\<close> on two floating-point numbers, read off their bit patterns: a NaN equals
  nothing, the two zeros are equal.
\<close>

definition f64_eq :: "64 word \<Rightarrow> 64 word \<Rightarrow> bool" where
  "f64_eq a b =
     (let nan = (\<lambda>w. w AND 0x7FF0000000000000 = 0x7FF0000000000000 \<and>
                       w AND 0x000FFFFFFFFFFFFF \<noteq> 0);
          zero = (\<lambda>w. w AND 0x7FFFFFFFFFFFFFFF = 0)
      in \<not> nan a \<and> \<not> nan b \<and> (a = b \<or> (zero a \<and> zero b)))"

definition f32_eq :: "32 word \<Rightarrow> 32 word \<Rightarrow> bool" where
  "f32_eq a b =
     (let nan = (\<lambda>w. w AND 0x7F800000 = 0x7F800000 \<and> w AND 0x007FFFFF \<noteq> 0);
          zero = (\<lambda>w. w AND 0x7FFFFFFF = 0)
      in \<not> nan a \<and> \<not> nan b \<and> (a = b \<or> (zero a \<and> zero b)))"

text \<open>
  A \<^verbatim>\<open>map[interface{}]T\<close> is the list of its entries.  Two keys are the same key when
  they have the same dynamic type and are equal by \<^verbatim>\<open>==\<close>; a key whose dynamic type is
  a slice cannot be hashed, and the assignment panics.  (\<^verbatim>\<open>GetAll\<close> decodes every key
  with the template \<^verbatim>\<open>nil\<close>, so no key is of another dynamic type than those of the
  scalar variants.)
\<close>

definition go_eq :: "gval \<Rightarrow> gval \<Rightarrow> bool" where
  "go_eq x y =
     (case x of
        GFloat64 a \<Rightarrow> (case y of GFloat64 b \<Rightarrow> f64_eq a b | _ \<Rightarrow> False)
      | GFloat32 a \<Rightarrow> (case y of GFloat32 b \<Rightarrow> f32_eq a b | _ \<Rightarrow> False)
      | _ \<Rightarrow> x = y)"

fun hashable :: "gval \<Rightarrow> bool" where
  "hashable (GBytes b) = False"
| "hashable (GSlice xs) = False"
| "hashable v = True"

fun map_assign :: "(gval \<times> 'v) list \<Rightarrow> gval \<Rightarrow> 'v \<Rightarrow> (gval \<times> 'v) list" where
  "map_assign [] k v = [(k, v)]"
| "map_assign ((k', v') # m) k v =
     (if go_eq k' k then (k', v) # m else (k', v') # map_assign m k v)"

text \<open>The loop over \<^verbatim>\<open>Entries\<close>, with the two maps as they stand.\<close>

fun GetAll_entries ::
  "env \<Rightarrow> (EncodedValue \<times> EncodedValue) list \<Rightarrow> (gval \<times> gval) list \<Rightarrow> (gval \<times> go_error) list
    \<Rightarrow> go_error + ((gval \<times> gval) list \<times> (gval \<times> go_error) list)" where
  "GetAll_entries e [] decodedEntries decodedFailures = Inr (decodedEntries, decodedFailures)"
| "GetAll_entries e ((entryKey, entryValue) # rest) decodedEntries decodedFailures =
     (case DecodeValue e entryKey GNil of
        Inl err \<Rightarrow>
          Inl (ErrorString (fmt_Sprintf e ''unable to decode GetAll response key: %s''
                 [AString (Error_msg err)]))
      | Inr key \<Rightarrow>
          (case DecodeValue e entryValue GNil of
             Inl err \<Rightarrow>
               if hashable key then
                 GetAll_entries e rest decodedEntries
                   (map_assign decodedFailures key
                      (ErrorString (fmt_Sprintf e
                         ''unable to decode GetAll value for key: %v: %s''
                         [AValue key, AString (Error_msg err)])))
               else Inl (RuntimePanic ''hash of unhashable type'')
           | Inr v \<Rightarrow>
               if hashable key then
                 GetAll_entries e rest (map_assign decodedEntries key v) decodedFailures
               else Inl (RuntimePanic ''hash of unhashable type'')))"

text \<open>
  The loop over \<^verbatim>\<open>Failures\<close>.  A failure whose \<^verbatim>\<open>Error\<close> pointer is \<^verbatim>\<open>nil\<close> makes
  \<^verbatim>\<open>failure.Error.Message\<close> panic.
\<close>

fun GetAll_failures ::
  "env \<Rightarrow> (EncodedValue \<times> (string \<times> 32 word) option) list \<Rightarrow> (gval \<times> go_error) list
    \<Rightarrow> go_error + (gval \<times> go_error) list" where
  "GetAll_failures e [] decodedFailures = Inr decodedFailures"
| "GetAll_failures e ((failureKey, failureError) # rest) decodedFailures =
     (case DecodeValue e failureKey GNil of
        Inl err \<Rightarrow>
          Inl (ErrorString (fmt_Sprintf e
                 ''unable to decode GetAll failure response for key: %v: %s''
                 [AEncoded failureKey, AString (Error_msg err)]))
      | Inr key \<Rightarrow>
          (case failureError of
             None \<Rightarrow> Inl (RuntimePanic ''invalid memory address or nil pointer dereference'')
           | Some (m, code) \<Rightarrow>
               if hashable key then
                 GetAll_failures e rest
                   (map_assign decodedFailures key
                      (ErrorString (fmt_Sprintf e ''%s (%d)'' [AString m, AInt (sint code)])))
               else Inl (RuntimePanic ''hash of unhashable type'')))"

text \<open>
  What \<^verbatim>\<open>GetAll\<close> does with the response.  \<^verbatim>\<open>GetGetAllResponse()\<close> is \<^verbatim>\<open>nil\<close> for a
  message of another kind, and the field access on it panics.  The second component of
  the result is \<open>None\<close> for the \<^verbatim>\<open>nil\<close> map returned when there is no failure.
\<close>

fun GetAll_decode ::
  "env \<Rightarrow> Message
    \<Rightarrow> go_error + ((gval \<times> gval) list \<times> (gval \<times> go_error) list option)" where
  "GetAll_decode e (GetAllResponse entries failures) =
     (case GetAll_entries e entries [] [] of
        Inl err \<Rightarrow> Inl err
      | Inr (decodedEntries, decodedFailures) \<Rightarrow>
          (case GetAll_failures e failures decodedFailures of
             Inl err \<Rightarrow> Inl err
           | Inr decodedFailures' \<Rightarrow>
               if length decodedFailures' = 0 then Inr (decodedEntries, None)
               else Inr (decodedEntries, Some decodedFailures')))"
| "GetAll_decode e response =
     Inl (RuntimePanic ''invalid memory address or nil pointer dereference'')"

text \<open>
  \<^verbatim>\<open>GetAll\<close>.  Its loop over the keys is the loop of \<^verbatim>\<open>EncodeList\<close>, statement for
  statement.
\<close>

definition GetAll ::
  "nat \<Rightarrow> env \<Rightarrow> string \<Rightarrow> gval \<Rightarrow> state
    \<Rightarrow> ((go_error + ((gval \<times> gval) list \<times> (gval \<times> go_error) list option)) \<times> state) option"
  where
  "GetAll fuel e region keys s =
     (case slice_elems keys of
        None \<Rightarrow> Some (Inl (ErrorString ''keys must be a slice or array''), s)
      | Some ks \<Rightarrow>
          (case EncodeList_loop e ks [] of
             Inl err \<Rightarrow> Some (Inl err, s)
           | Inr encodedKeys \<Rightarrow>
               (case doOperation fuel e (GetAllRequest region encodedKeys) s of
                  None \<Rightarrow> None
                | Some (Inl err, s') \<Rightarrow> Some (Inl err, s')
                | Some (Inr response, s') \<Rightarrow> Some (GetAll_decode e response, s'))))"


section \<open>Predicates of the statements and a concrete environment\<close>

text \<open>
  A network in which nothing goes wrong and nothing is offered: no provider can dial, every
  handshake, authentication and write succeeds, every read yields a plain message.
  \<^verbatim>\<open>json.Marshal\<close> refuses every value, \<^verbatim>\<open>json.Unmarshal\<close> hands the template back
  and \<^verbatim>\<open>fmt.Sprintf\<close> prints the format alone.  The concrete runs below start from it.
\<close>

definition quiet_env :: env where
  "quiet_env = \<lparr>json_Marshal = (\<lambda>v. Inl (ErrorString ''json: unsupported type'')),
     json_Unmarshal = (\<lambda>j ref. Inr ref),
     fmt_Sprintf = (\<lambda>f args. f),
     dial = (\<lambda>i p a. None),
     handshake_io = (\<lambda>a. None),
     authenticate_io = (\<lambda>a u p. None),
     EncodeMessage = (\<lambda>m. None),
     conn_Write = (\<lambda>c m. None),
     conn_readResponse = (\<lambda>c m. Inr (OtherMessage ''ok''))\<rparr>"

text \<open>The same network with a server that hangs up during every handshake.\<close>

definition refusing_env :: env where
  "refusing_env = quiet_env\<lparr>handshake_io := (\<lambda>a. Some IoEOF)\<rparr>"

text \<open>
  A network for a retry: writing to transport 1 fails in the write itself, reading from
  transport 7 meets the end of the stream, and every provider can dial transport 8, which
  works.
\<close>

definition flaky_env :: env where
  "flaky_env =
     quiet_env\<lparr>dial := (\<lambda>i p a. Some 8),
       conn_Write := (\<lambda>c m. if c = 1
          then Some (NetOpError ''write'' '' tcp 10.0.0.1:40404'' (ErrorString ''broken pipe''))
          else None),
       conn_readResponse := (\<lambda>c m. if c = 7 then Inl IoEOF else Inr (OtherMessage ''ok''))\<rparr>"



text \<open>
  Three pools for the concrete runs: one whose only connection is in use, with two
  providers; one with two idle connections and a provider; one with a single idle
  connection whose handshake has not been made.
\<close>

definition busy_pool :: state where
  "busy_pool =
     NewPool\<lparr>recentConnections := [0],
       providers := [serverConnectionProvider ''a'' 1, serverConnectionProvider ''b'' 2],
       heap := [\<lparr>rawConn = 7, handshakeDone = True, authenticationDone = False,
                 inUse = True\<rparr>],
       activeConnections := 1\<rparr>"

definition two_idle_pool :: state where
  "two_idle_pool = AddServer ''a'' 1 (AddConnection 8 True (AddConnection 7 True NewPool))"

definition fresh_pool :: state where
  "fresh_pool = AddConnection 7 False NewPool"

text \<open>The last pool with a server added.\<close>

definition retry_pool :: state where
  "retry_pool = AddServer ''a'' 1 fresh_pool"

text \<open>
  The dynamic types whose wire variant holds the value at its own width or is converted
  back by \<^verbatim>\<open>DecodeValue\<close>.
\<close>

fun exact_kind :: "gval \<Rightarrow> bool" where
  "exact_kind (GInt32 k) = True"
| "exact_kind (GInt64 k) = True"
| "exact_kind (GByte k) = True"
| "exact_kind (GBool k) = True"
| "exact_kind (GFloat64 k) = True"
| "exact_kind (GFloat32 k) = True"
| "exact_kind (GBytes k) = True"
| "exact_kind (GString k) = True"
| "exact_kind v = False"

text \<open>
  The pointers in the membership are pointers to allocated objects, and no pointer is in
  the membership twice: every operation of the pool that adds one adds a new object.
\<close>

definition pool_wf :: "state \<Rightarrow> bool" where
  "pool_wf s =
     (distinct (recentConnections s) \<and> list_all (\<lambda>c. c < length (heap s)) (recentConnections s))"

text \<open>
  The set-up of the selected connection fails with \<open>err\<close>: the handshake fails, or it
  succeeds, authentication is enabled and the authentication fails.
\<close>

definition setup_fails :: "env \<Rightarrow> addr \<Rightarrow> state \<Rightarrow> go_error \<Rightarrow> bool" where
  "setup_fails e c s err =
     (case handshake e c s of
        (Some err', s2) \<Rightarrow> err' = err
      | (None, s2) \<Rightarrow>
          authenticationEnabled s2 \<and>
          (case authenticate e c (username s2) (password s2) s2 of
             (Some err', s3) \<Rightarrow> err' = err
           | (None, s3) \<Rightarrow> False))"

text \<open>
  What the operations of the pool and of the engine never undo between a state and a later
  one: objects stay allocated, closed transports stay closed, an object keeps its
  transport, and an allocated object that is no member does not become one.
\<close>

definition evolves :: "state \<Rightarrow> state \<Rightarrow> bool" where
  "evolves s s' =
     (length (heap s) \<le> length (heap s') \<and> closedConns s \<subseteq> closedConns s' \<and>
      (\<forall>a<length (heap s). rawConn (heap s' ! a) = rawConn (heap s ! a)) \<and>
      (\<forall>a<length (heap s). a \<notin> set (recentConnections s) \<longrightarrow>
          a \<notin> set (recentConnections s')))"

text \<open>The idle members, in the order of the scan.\<close>

definition idle :: "state \<Rightarrow> addr list" where
  "idle s = filter (\<lambda>c. \<not> inUse (heap s ! c)) (recentConnections s)"

text \<open>A value that \<^verbatim>\<open>EncodeValue\<close> encodes without an error.\<close>

definition encodable :: "env \<Rightarrow> gval \<Rightarrow> bool" where
  "encodable e v = (case EncodeValue e v of Inl err \<Rightarrow> False | Inr ev \<Rightarrow> True)"


text \<open>
  The map has an entry under the key: under the key itself or under a key that Go's
  \<^verbatim>\<open>==\<close> equates with it.
\<close>

definition has_key :: "(gval \<times> 'v) list \<Rightarrow> gval \<Rightarrow> bool" where
  "has_key m k = list_ex (\<lambda>(k', v). k' = k \<or> go_eq k' k) m"





text \<open>A pool whose mutex another caller holds.\<close>

definition held_pool :: state where
  "held_pool = fresh_pool\<lparr>locked := True\<rparr>"

section \<open>The codec: round trip\<close>

lemma byte_back: "(ucast (ucast (b :: 8 word) :: 32 word) :: 8 word) = b"
  by (simp add: ucast_up_ucast_id is_up)

lemma int_fits:
  fixes k :: "64 word"
  assumes "- (2 ^ 31) \<le> sint k" "sint k < 2 ^ 31"
  shows "sint (scast k :: 32 word) = sint k"
  using assms by (simp add: signed_scast_eq signed_take_bit_int_eq_self)

text \<open>
  C1, as the code has it.  For a value of dynamic type \<^verbatim>\<open>int32\<close>, \<^verbatim>\<open>int64\<close>,
  \<^verbatim>\<open>byte\<close>, \<^verbatim>\<open>bool\<close>, \<^verbatim>\<open>float64\<close>, \<^verbatim>\<open>float32\<close>, \<^verbatim>\<open>[]byte\<close> or \<^verbatim>\<open>string\<close>,
  \<^verbatim>\<open>EncodeValue\<close> succeeds and \<^verbatim>\<open>DecodeValue\<close> of the result returns the value itself,
  same dynamic type and same value, whatever the template.  A Go \<^verbatim>\<open>int\<close> that fits into
  32 bits comes back as the \<^verbatim>\<open>int32\<close> of the same number, not as an \<^verbatim>\<open>int\<close>.
\<close>

theorem EncodeValue_DecodeValue_roundtrip:
  "(exact_kind v \<longrightarrow> (\<exists>ev. EncodeValue e v = Inr ev \<and> DecodeValue e ev ref = Inr v)) \<and>
   (- (2 ^ 31) \<le> sint k \<and> sint k < 2 ^ 31 \<longrightarrow>
      (\<exists>ev w. EncodeValue e (GInt k) = Inr ev \<and> DecodeValue e ev ref = Inr (GInt32 w) \<and>
         sint w = sint k))"
proof (intro conjI impI)
  assume "exact_kind v"
  then show "\<exists>ev. EncodeValue e v = Inr ev \<and> DecodeValue e ev ref = Inr v"
    by (cases v) (simp_all add: byte_back)
next
  assume "- (2 ^ 31) \<le> sint k \<and> sint k < 2 ^ 31"
  then have "sint (scast k :: 32 word) = sint k" by (simp add: int_fits)
  then show "\<exists>ev w. EncodeValue e (GInt k) = Inr ev \<and> DecodeValue e ev ref = Inr (GInt32 w) \<and>
         sint w = sint k"
    by simp
qed

theorem EncodeValue_DecodeValue_roundtrip_witness:
  "exact_kind (GString ''hello'') \<and>
   EncodeValue quiet_env (GString ''hello'') = Inr (StringResult ''hello'') \<and>
   DecodeValue quiet_env (StringResult ''hello'') (GOther ''tmpl'') = Inr (GString ''hello'') \<and>
   - (2 ^ 31) \<le> sint (42 :: 64 word) \<and> sint (42 :: 64 word) < 2 ^ 31 \<and>
   DecodeValue quiet_env (IntResult 42) (GOther ''tmpl'') = Inr (GInt32 42)"
  using EncodeValue_DecodeValue_roundtrip
    [of "GString ''hello''" quiet_env "GOther ''tmpl''" 42]
  by simp

text \<open>
  C1 as stated fails on a Go \<^verbatim>\<open>int\<close>: \<^verbatim>\<open>int(5)\<close> is encoded in the 32-bit variant and
  decoded as \<^verbatim>\<open>int32(5)\<close>, a value of another dynamic type.
\<close>

theorem roundtrip_int_counterexample:
  "EncodeValue quiet_env (GInt 5) = Inr (IntResult 5) \<and>
   DecodeValue quiet_env (IntResult 5) GNil = Inr (GInt32 5) \<and>
   GInt32 5 \<noteq> GInt 5"
  by simp

section \<open>The codec: tables\<close>

lemma EncodeList_loop_all:
  "list_all (encodable e) xs \<Longrightarrow>
   EncodeList_loop e xs acc = Inr (acc @ map (projr \<circ> EncodeValue e) xs)"
proof (induction xs arbitrary: acc)
  case Nil
  then show ?case by simp
next
  case (Cons x xs)
  then show ?case by (auto simp: encodable_def split: sum.splits)
qed

lemma EncodeValueList_all:
  "list_all (encodable e) xs \<Longrightarrow>
   EncodeValueList e (GSlice xs) = Inr (EncodedValueList (map (projr \<circ> EncodeValue e) xs))"
  by (simp add: EncodeValueList_def EncodeList_def EncodeList_loop_all)

lemma take_Suc_update: "idx < length xs \<Longrightarrow> take (Suc idx) (xs[idx := k]) = take idx xs @ [k]"
  by (simp add: take_Suc_conv_app_nth)

lemma EncodeTable_loop_all:
  "list_all (\<lambda>(k, vs). list_all (encodable e) vs) rest \<Longrightarrow>
   idx + length rest \<le> length names \<Longrightarrow> length cols = length names \<Longrightarrow>
   EncodeTable_loop e rest idx names cols =
     Inr (take idx names @ map fst rest @ drop (idx + length rest) names,
          take idx cols @ map (\<lambda>(k, vs). Some (EncodedValueList (map (projr \<circ> EncodeValue e) vs))) rest
            @ drop (idx + length rest) cols)"
proof (induction rest arbitrary: idx names cols)
  case Nil
  then show ?case by simp
next
  case (Cons kv rest)
  obtain k v where kv: "kv = (k, v)" by (cases kv)
  have enc: "list_all (encodable e) v" and rest: "list_all (\<lambda>(k, vs). list_all (encodable e) vs) rest"
    using Cons.prems(1) kv by simp_all
  have idx: "idx < length names" "idx < length cols" using Cons.prems by simp_all
  have len: "Suc idx + length rest \<le> length (names[idx := k])"
       "length (cols[idx := Some (EncodedValueList (map (projr \<circ> EncodeValue e) v))]) = length (names[idx := k])"
    using Cons.prems by simp_all
  show ?case
    using Cons.IH [OF rest len] idx
    by (simp add: kv EncodeValueList_all enc take_Suc_update)
qed


lemma EncodeTable_all:
  assumes "list_all (\<lambda>(k, vs). list_all (encodable e) vs) table"
  shows "EncodeTable e table =
     Inr \<lparr>FieldName = map fst table,
          Row = map (\<lambda>(k, vs). Some (EncodedValueList (map (projr \<circ> EncodeValue e) vs))) table\<rparr>"
  using EncodeTable_loop_all [OF assms, of 0 "replicate (length table) []" "replicate (length table) None"]
  by (simp add: EncodeTable_def)

lemma map_EncodeValue_projr:
  "list_all (encodable e) vs \<Longrightarrow> map (EncodeValue e) vs = map Inr (map (projr \<circ> EncodeValue e) vs)"
  by (induction vs) (auto simp: encodable_def split: sum.splits)

text \<open>
  C7, as the code has it.  Let the table be a finite mapping from column names to value sequences, met by the
  loop in any order (the entries as a list with distinct keys), all of whose values
  \<^verbatim>\<open>EncodeValue\<close> can encode.  Then \<^verbatim>\<open>EncodeTable\<close> returns a table whose column-name
  sequence and row sequence have the same length, the number of columns; the names are
  exactly the keys of the mapping; and for every index \<open>i\<close> the encoded list at \<open>i\<close> is
  the element-wise encoding, in order, of the sequence the mapping gives for the name at \<open>i\<close>.
\<close>

theorem EncodeTable_columns:
  assumes "distinct (map fst table)"
    and "list_all (\<lambda>(k, vs). list_all (encodable e) vs) table"
  shows "\<exists>t. EncodeTable e table = Inr t \<and>
           length (FieldName t) = length (Row t) \<and>
           length (FieldName t) = length table \<and>
           set (FieldName t) = dom (map_of table) \<and>
           (\<forall>i < length (FieldName t). \<exists>vs evs.
               map_of table (FieldName t ! i) = Some vs \<and>
               Row t ! i = Some (EncodedValueList evs) \<and>
               map (EncodeValue e) vs = map Inr evs)"
proof -
  define names where "names = map fst table"
  define rows where
    "rows = map (\<lambda>(k, vs). Some (EncodedValueList (map (projr \<circ> EncodeValue e) vs))) table"
  have res: "EncodeTable e table = Inr \<lparr>FieldName = names, Row = rows\<rparr>"
    unfolding names_def rows_def by (rule EncodeTable_all [OF assms(2)])
  have col: "\<exists>vs evs. map_of table (names ! i) = Some vs \<and>
               rows ! i = Some (EncodedValueList evs) \<and>
               map (EncodeValue e) vs = map Inr evs" if i: "i < length table" for i
  proof -
    obtain k vs where kv: "table ! i = (k, vs)" by (cases "table ! i")
    have mem: "(k, vs) \<in> set table" using i kv nth_mem [of i table] by simp
    have "list_all (encodable e) vs" using assms(2) mem by (auto simp: list_all_iff)
    then have enc: "map (EncodeValue e) vs = map Inr (map (projr \<circ> EncodeValue e) vs)"
      by (rule map_EncodeValue_projr)
    have look: "map_of table k = Some vs" using assms(1) mem by simp
    have n: "names ! i = k" using i kv by (simp add: names_def)
    have r: "rows ! i = Some (EncodedValueList (map (projr \<circ> EncodeValue e) vs))"
      using i kv by (simp add: rows_def)
    show ?thesis using enc look n r by blast
  qed
  have dom: "set names = dom (map_of table)"
    by (simp add: names_def dom_map_of_conv_image_fst)
  have len: "length names = length table" "length rows = length table"
    by (simp_all add: names_def rows_def)
  show ?thesis
  proof (intro exI [of _ "\<lparr>FieldName = names, Row = rows\<rparr>"] conjI)
    show "EncodeTable e table = Inr \<lparr>FieldName = names, Row = rows\<rparr>" by (rule res)
    show "length (FieldName \<lparr>FieldName = names, Row = rows\<rparr>) = length (Row \<lparr>FieldName = names, Row = rows\<rparr>)"
      using len by simp
    show "length (FieldName \<lparr>FieldName = names, Row = rows\<rparr>) = length table" using len by simp
    show "set (FieldName \<lparr>FieldName = names, Row = rows\<rparr>) = dom (map_of table)" using dom by simp
    show "\<forall>i<length (FieldName \<lparr>FieldName = names, Row = rows\<rparr>).
       \<exists>vs evs. map_of table (FieldName \<lparr>FieldName = names, Row = rows\<rparr> ! i) = Some vs \<and>
          Row \<lparr>FieldName = names, Row = rows\<rparr> ! i = Some (EncodedValueList evs) \<and>
          map (EncodeValue e) vs = map Inr evs"
      using col len by simp
  qed
qed

lemma EncodeTable_example: "EncodeTable quiet_env [(''a'', [GInt32 1, GInt32 2]), (''b'', [GInt32 3, GInt32 4])]
   = Inr \<lparr>FieldName = [''a'', ''b''], Row = [Some (EncodedValueList [IntResult 1, IntResult 2]), Some (EncodedValueList [IntResult 3, IntResult 4])]\<rparr>"
  by (simp add: EncodeTable_def EncodeValueList_def EncodeList_def)


theorem EncodeTable_columns_witness:
  "distinct (map fst [(''a'', [GInt32 1, GInt32 2]), (''b'', [GInt32 3, GInt32 4])]) \<and>
   list_all (\<lambda>(k, vs). list_all (encodable quiet_env) vs)
     [(''a'', [GInt32 1, GInt32 2]), (''b'', [GInt32 3, GInt32 4])] \<and>
   (\<exists>t. EncodeTable quiet_env [(''a'', [GInt32 1, GInt32 2]), (''b'', [GInt32 3, GInt32 4])] = Inr t \<and>
        length (FieldName t) = length (Row t) \<and>
        length (FieldName t) = length [(''a'', [GInt32 1, GInt32 2]), (''b'', [GInt32 3, GInt32 4])] \<and>
        set (FieldName t) = dom (map_of [(''a'', [GInt32 1, GInt32 2]), (''b'', [GInt32 3, GInt32 4])]) \<and>
        (\<forall>i < length (FieldName t). \<exists>vs evs.
            map_of [(''a'', [GInt32 1, GInt32 2]), (''b'', [GInt32 3, GInt32 4])] (FieldName t ! i) = Some vs \<and>
            Row t ! i = Some (EncodedValueList evs) \<and>
            map (EncodeValue quiet_env) vs = map Inr evs))"
proof -
  have d: "distinct (map fst [(''a'', [GInt32 1, GInt32 2]), (''b'', [GInt32 3, GInt32 4])])"
    by simp
  have a: "list_all (\<lambda>(k, vs). list_all (encodable quiet_env) vs)
     [(''a'', [GInt32 1, GInt32 2]), (''b'', [GInt32 3, GInt32 4])]"
    by (simp add: encodable_def)
  show ?thesis by (intro conjI d a EncodeTable_columns [OF d a])
qed

text \<open>
  C7 as stated, for every mapping, fails: a value that \<^verbatim>\<open>json.Marshal\<close> refuses (a
  channel, say) makes \<^verbatim>\<open>EncodeValue\<close> fail, and \<^verbatim>\<open>EncodeTable\<close> returns that error
  and no table.
\<close>

theorem EncodeTable_unencodable_counterexample:
  "json_Marshal quiet_env (GOther ''chan int'') = Inl (ErrorString ''json: unsupported type'') \<and>
   EncodeTable quiet_env [(''a'', [GOther ''chan int''])] =
     Inl (ErrorString ''json: unsupported type'')"
  by (simp add: quiet_env_def EncodeTable_def EncodeValueList_def EncodeList_def)

section \<open>The pool: selecting and setting up a connection\<close>

lemma scan_recent_filter:
  "scan_recent h cs g =
     (case filter (\<lambda>c. \<not> inUse (h ! c)) cs of [] \<Rightarrow> g | x # xs \<Rightarrow> Some (last (x # xs)))"
  by (induction cs arbitrary: g) (auto split: list.splits)

lemma scan_recent_idle:
  "scan_recent (heap s) (recentConnections s) None =
     (if idle s = [] then None else Some (last (idle s)))"
  by (simp add: scan_recent_filter idle_def split: list.splits)

lemma ask_providers_none:
  "n \<le> length (providers s) \<Longrightarrow>
   \<forall>i<n. dial e i (providers s ! i) (length (heap s)) = None \<Longrightarrow>
   ask_providers e n s = (None, s\<lparr>providers := drop n (providers s)\<rparr>)"
proof (induction n arbitrary: s)
  case 0
  then show ?case by simp
next
  case (Suc i)
  let ?s' = "s\<lparr>providers := take i (providers s) @ drop (Suc i) (providers s)\<rparr>"
  have none: "GetGeodeConnection e i (providers s ! i) s = (None, s)"
    using Suc.prems by (simp add: GetGeodeConnection_def)
  have le: "i \<le> length (providers ?s')" using Suc.prems by simp
  have all: "\<forall>j<i. dial e j (providers ?s' ! j) (length (heap ?s')) = None"
    using Suc.prems by (simp add: nth_append)
  have "ask_providers e (Suc i) s = ask_providers e i ?s'"
    using none by simp
  also have "\<dots> = (None, ?s'\<lparr>providers := drop i (providers ?s')\<rparr>)"
    by (rule Suc.IH [OF le all])
  also have "\<dots> = (None, s\<lparr>providers := drop (Suc i) (providers s)\<rparr>)"
    using Suc.prems by simp
  finally show ?case .
qed

lemma ask_providers_frame:
  "ask_providers e n s = (r, s') \<Longrightarrow>
   locked s' = locked s \<and> recentConnections s' = recentConnections s \<and>
   authenticationEnabled s' = authenticationEnabled s \<and> username s' = username s \<and>
   password s' = password s \<and> closedConns s' = closedConns s \<and>
   activeConnections s' = activeConnections s \<and>
   connectionsCreated s' = connectionsCreated s \<and>
   discardedConnections s' = discardedConnections s \<and>
   (case r of
      None \<Rightarrow> heap s' = heap s
    | Some c \<Rightarrow> c = length (heap s) \<and>
        (\<exists>t. heap s' = heap s @ [\<lparr>rawConn = t, handshakeDone = False,
                                   authenticationDone = False, inUse = False\<rparr>]))"
proof (induction n arbitrary: s)
  case 0
  then show ?case by auto
next
  case (Suc i)
  show ?case
  proof (cases "dial e i (providers s ! i) (length (heap s))")
    case None
    let ?s' = "s\<lparr>providers := take i (providers s) @ drop (Suc i) (providers s)\<rparr>"
    have "ask_providers e i ?s' = (r, s')"
      using Suc.prems None by (simp add: GetGeodeConnection_def)
    from Suc.IH [OF this] show ?thesis
      by (auto split: option.splits)
  next
    case (Some t)
    then show ?thesis using Suc.prems
      by (auto simp: GetGeodeConnection_def)
  qed
qed

lemma select_connection_idle:
  "idle s \<noteq> [] \<Longrightarrow> select_connection e s = (Some (last (idle s)), s)"
  by (simp add: select_connection_def scan_recent_idle)

lemma select_connection_none:
  assumes "idle s = []"
    and "\<forall>i<length (providers s). dial e i (providers s ! i) (length (heap s)) = None"
  shows "select_connection e s = (None, s\<lparr>providers := []\<rparr>)"
  using assms ask_providers_none [of "length (providers s)" s e]
  by (simp add: select_connection_def scan_recent_idle)

lemma select_connection_frame:
  assumes "select_connection e s = (r, s1)"
  shows "locked s1 = locked s \<and> authenticationEnabled s1 = authenticationEnabled s \<and>
     username s1 = username s \<and> password s1 = password s \<and>
     closedConns s1 = closedConns s \<and> activeConnections s1 = activeConnections s \<and>
     discardedConnections s1 = discardedConnections s"
proof (cases "scan_recent (heap s) (recentConnections s) None")
  case (Some c)
  then have "s1 = s" using assms by (simp add: select_connection_def)
  then show ?thesis by simp
next
  case None
  obtain r' s' where a: "ask_providers e (length (providers s)) s = (r', s')"
    by (cases "ask_providers e (length (providers s)) s")
  note f = ask_providers_frame [OF a]
  show ?thesis
  proof (cases r')
    case None
    then have "s1 = s'" using assms \<open>scan_recent (heap s) (recentConnections s) None = None\<close> a
      by (simp add: select_connection_def)
    then show ?thesis using f by simp
  next
    case (Some c)
    then have "s1 = s'\<lparr>recentConnections := recentConnections s' @ [c],
                           connectionsCreated := connectionsCreated s' + 1\<rparr>"
      using assms \<open>scan_recent (heap s) (recentConnections s) None = None\<close> a
      by (simp add: select_connection_def)
    then show ?thesis using f by simp
  qed
qed

lemma select_connection_some:
  assumes "pool_wf s" and "select_connection e s = (Some c, s1)"
  shows "pool_wf s1 \<and> c \<in> set (recentConnections s1) \<and> c < length (heap s1) \<and>
     \<not> inUse (heap s1 ! c)"
proof (cases "idle s = []")
  case False
  then have "select_connection e s = (Some (last (idle s)), s)"
    by (rule select_connection_idle)
  with assms(2) have "(Some c, s1) = (Some (last (idle s)), s)" by (rule subst)
  then have c: "c = last (idle s)" and s1: "s1 = s" by auto
  have "last (idle s) \<in> set (idle s)" using False by simp
  then have "c \<in> set (recentConnections s)" "\<not> inUse (heap s ! c)"
    using c by (simp_all add: idle_def)
  moreover have "c < length (heap s)"
    using assms(1) \<open>c \<in> set (recentConnections s)\<close> by (simp add: pool_wf_def list_all_iff)
  ultimately show ?thesis using assms(1) s1 by simp
next
  case True
  obtain r' s' where a: "ask_providers e (length (providers s)) s = (r', s')"
    by (cases "ask_providers e (length (providers s)) s")
  have sel: "select_connection e s =
     (case r' of Some c \<Rightarrow> (Some c, s'\<lparr>recentConnections := recentConnections s' @ [c],
                           connectionsCreated := connectionsCreated s' + 1\<rparr>)
       | None \<Rightarrow> (None, s'))"
    using True a by (simp add: select_connection_def scan_recent_idle)
  have r': "r' = Some c" using assms(2) sel by (cases r') simp_all
  have s1: "s1 = s'\<lparr>recentConnections := recentConnections s' @ [c],
                           connectionsCreated := connectionsCreated s' + 1\<rparr>"
    using assms(2) sel r' by simp
  from ask_providers_frame [OF a] r'
  obtain t where f: "recentConnections s' = recentConnections s" "c = length (heap s)"
    "heap s' = heap s @ [\<lparr>rawConn = t, handshakeDone = False,
                                   authenticationDone = False, inUse = False\<rparr>]"
    by auto
  have rc: "recentConnections s1 = recentConnections s @ [c]" using s1 f by simp
  have hp: "heap s1 = heap s @ [\<lparr>rawConn = t, handshakeDone = False,
                                   authenticationDone = False, inUse = False\<rparr>]"
    using s1 f by simp
  have old: "\<forall>x \<in> set (recentConnections s). x < length (heap s)"
    using assms(1) by (simp add: pool_wf_def list_all_iff)
  have "distinct (recentConnections s)" using assms(1) by (simp add: pool_wf_def)
  then have "pool_wf s1" using old rc hp f(2)
    by (auto simp: pool_wf_def list_all_iff)
  moreover have "c \<in> set (recentConnections s1)" using rc by simp
  moreover have "c < length (heap s1)" using hp f(2) by simp
  moreover have "\<not> inUse (heap s1 ! c)" using hp f(2) by simp
  ultimately show ?thesis by simp
qed

lemma GetConnection_unlocked:
  "\<not> locked s \<Longrightarrow>
   GetConnection e s =
     (case GetConnection_locked e (s\<lparr>locked := True\<rparr>) of (r, s2) \<Rightarrow> Some (r, Unlock s2))"
  by (simp add: GetConnection_def Lock_def)

text \<open>
  C4.  When the pool's mutex is free, no member of the pool is idle and every provider,
  asked for a connection, yields nothing, \<^verbatim>\<open>GetConnection\<close> fails with the error
  \<^verbatim>\<open>no connections available\<close>, and the state after the call is the state before it
  with an empty provider list: every exhausted provider has been removed.
\<close>

theorem GetConnection_exhausted:
  assumes "\<not> locked s"
    and "idle s = []"
    and "\<forall>i<length (providers s). dial e i (providers s ! i) (length (heap s)) = None"
  shows "GetConnection e s =
           Some (Inl (ErrorString ''no connections available''), s\<lparr>providers := []\<rparr>)"
proof -
  let ?s = "s\<lparr>locked := True\<rparr>"
  have "idle ?s = []" using assms(2) by (simp add: idle_def)
  moreover have "\<forall>i<length (providers ?s). dial e i (providers ?s ! i) (length (heap ?s)) = None"
    using assms(3) by simp
  ultimately have "select_connection e ?s = (None, ?s\<lparr>providers := []\<rparr>)"
    by (rule select_connection_none)
  then show ?thesis using assms(1)
    by (simp add: GetConnection_unlocked GetConnection_locked_def Unlock_def)
qed

lemma nth_update_field:
  assumes "\<And>x. f (g x) = f x"
  shows "f (xs[c := g (xs ! c)] ! a) = f (xs ! a)"
proof (cases "c < length xs")
  case True
  then show ?thesis using assms by (cases "a = c") simp_all
next
  case False
  then show ?thesis by (simp add: list_update_beyond)
qed

lemma handshake_frame:
  assumes "handshake e c s = (r, s')"
  shows "locked s' = locked s \<and> recentConnections s' = recentConnections s \<and>
     providers s' = providers s \<and> authenticationEnabled s' = authenticationEnabled s \<and>
     username s' = username s \<and> password s' = password s \<and>
     closedConns s' = closedConns s \<and> activeConnections s' = activeConnections s \<and>
     connectionsCreated s' = connectionsCreated s \<and>
     discardedConnections s' = discardedConnections s \<and>
     length (heap s') = length (heap s) \<and>
     (\<forall>a. inUse (heap s' ! a) = inUse (heap s ! a) \<and>
          rawConn (heap s' ! a) = rawConn (heap s ! a))"
proof (cases "handshakeDone (heap s ! c) \<or> handshake_io e c \<noteq> None")
  case True
  then have "s' = s" using assms by (auto simp: handshake_def split: if_splits option.splits)
  then show ?thesis by simp
next
  case False
  then have s': "s' = s\<lparr>heap := (heap s)[c := (heap s ! c)\<lparr>handshakeDone := True\<rparr>]\<rparr>"
    using assms by (auto simp: handshake_def split: if_splits option.splits)
  have "\<forall>a. inUse ((heap s)[c := (heap s ! c)\<lparr>handshakeDone := True\<rparr>] ! a) = inUse (heap s ! a) \<and>
          rawConn ((heap s)[c := (heap s ! c)\<lparr>handshakeDone := True\<rparr>] ! a) = rawConn (heap s ! a)"
    by (simp add: nth_update_field [where g = "\<lambda>x. x\<lparr>handshakeDone := True\<rparr>"])
  then show ?thesis using s' by simp
qed

lemma authenticate_frame:
  assumes "authenticate e c u p s = (r, s')"
  shows "locked s' = locked s \<and> recentConnections s' = recentConnections s \<and>
     providers s' = providers s \<and> authenticationEnabled s' = authenticationEnabled s \<and>
     username s' = username s \<and> password s' = password s \<and>
     closedConns s' = closedConns s \<and> activeConnections s' = activeConnections s \<and>
     connectionsCreated s' = connectionsCreated s \<and>
     discardedConnections s' = discardedConnections s \<and>
     length (heap s') = length (heap s) \<and>
     (\<forall>a. inUse (heap s' ! a) = inUse (heap s ! a) \<and>
          rawConn (heap s' ! a) = rawConn (heap s ! a))"
proof (cases "authenticationDone (heap s ! c) \<or> authenticate_io e c u p \<noteq> None")
  case True
  then have "s' = s" using assms by (auto simp: authenticate_def split: if_splits option.splits)
  then show ?thesis by simp
next
  case False
  then have s': "s' = s\<lparr>heap := (heap s)[c := (heap s ! c)\<lparr>authenticationDone := True\<rparr>]\<rparr>"
    using assms by (auto simp: authenticate_def split: if_splits option.splits)
  have "\<forall>a. inUse ((heap s)[c := (heap s ! c)\<lparr>authenticationDone := True\<rparr>] ! a) = inUse (heap s ! a) \<and>
          rawConn ((heap s)[c := (heap s ! c)\<lparr>authenticationDone := True\<rparr>] ! a) = rawConn (heap s ! a)"
    by (simp add: nth_update_field [where g = "\<lambda>x. x\<lparr>authenticationDone := True\<rparr>"])
  then show ?thesis using s' by simp
qed


lemma GetConnection_locked_fails:
  assumes sel: "select_connection e s = (Some c, s1)" and f: "setup_fails e c s1 err"
  shows "\<exists>s'. GetConnection_locked e s = (Inl err, s') \<and>
     recentConnections s' = remove1 c (recentConnections s1) \<and>
     closedConns s' = insert (rawConn (heap s1 ! c)) (closedConns s1) \<and>
     length (heap s') = length (heap s1) \<and>
     (\<forall>a. inUse (heap s' ! a) = inUse (heap s1 ! a) \<and>
          rawConn (heap s' ! a) = rawConn (heap s1 ! a)) \<and>
     activeConnections s' = activeConnections s1 \<and>
     discardedConnections s' = discardedConnections s1 \<and>
     connectionsCreated s' = connectionsCreated s1 \<and>
     providers s' = providers s1 \<and> locked s' = locked s1"
proof -
  obtain hr s2 where hs: "handshake e c s1 = (hr, s2)" by (cases "handshake e c s1")
  note hf = handshake_frame [OF hs]
  show ?thesis
  proof (cases hr)
    case (Some err')
    then have "err' = err" using f hs by (simp add: setup_fails_def)
    then have "GetConnection_locked e s = (Inl err, discardConnection c s2)"
      using sel hs Some by (simp add: GetConnection_locked_def)
    then show ?thesis using hf by (simp add: discardConnection_def)
  next
    case None
    then have en: "authenticationEnabled s2" using f hs by (simp add: setup_fails_def)
    obtain ar s3 where au: "authenticate e c (username s2) (password s2) s2 = (ar, s3)"
      by (cases "authenticate e c (username s2) (password s2) s2")
    note af = authenticate_frame [OF au]
    have "ar = Some err" using f hs None au by (cases ar) (simp_all add: setup_fails_def)
    then have "GetConnection_locked e s = (Inl err, discardConnection c s3)"
      using sel hs None en au by (simp add: GetConnection_locked_def)
    then show ?thesis using hf af by (simp add: discardConnection_def)
  qed
qed

lemma GetConnection_locked_succeeds:
  assumes sel: "select_connection e s = (Some c, s1)" and f: "\<forall>err. \<not> setup_fails e c s1 err"
  shows "\<exists>s'. GetConnection_locked e s = (Inr c, s') \<and>
     recentConnections s' = recentConnections s1 \<and>
     closedConns s' = closedConns s1 \<and>
     length (heap s') = length (heap s1) \<and>
     (\<forall>a. a \<noteq> c \<longrightarrow> inUse (heap s' ! a) = inUse (heap s1 ! a)) \<and>
     (c < length (heap s1) \<longrightarrow> inUse (heap s' ! c)) \<and>
     (\<forall>a. rawConn (heap s' ! a) = rawConn (heap s1 ! a)) \<and>
     activeConnections s' = activeConnections s1 + 1 \<and>
     discardedConnections s' = discardedConnections s1 \<and>
     connectionsCreated s' = connectionsCreated s1 \<and>
     providers s' = providers s1 \<and> locked s' = locked s1"
proof -
  obtain hr s2 where hs: "handshake e c s1 = (hr, s2)" by (cases "handshake e c s1")
  note hf = handshake_frame [OF hs]
  have hr: "hr = None" using f hs by (cases hr) (auto simp: setup_fails_def)
  obtain ar s3 where au:
    "(if authenticationEnabled s2 then authenticate e c (username s2) (password s2) s2
      else (None, s2)) = (ar, s3)"
    by (cases "if authenticationEnabled s2 then authenticate e c (username s2) (password s2) s2
      else (None, s2)")
  have ar: "ar = None" using f hs hr au
    by (cases ar) (auto simp: setup_fails_def split: if_splits)
  have af: "locked s3 = locked s2 \<and> recentConnections s3 = recentConnections s2 \<and>
     providers s3 = providers s2 \<and>
     closedConns s3 = closedConns s2 \<and> activeConnections s3 = activeConnections s2 \<and>
     connectionsCreated s3 = connectionsCreated s2 \<and>
     discardedConnections s3 = discardedConnections s2 \<and>
     length (heap s3) = length (heap s2) \<and>
     (\<forall>a. inUse (heap s3 ! a) = inUse (heap s2 ! a) \<and>
          rawConn (heap s3 ! a) = rawConn (heap s2 ! a))"
  proof (cases "authenticationEnabled s2")
    case True
    then have "authenticate e c (username s2) (password s2) s2 = (ar, s3)" using au by simp
    from authenticate_frame [OF this] show ?thesis by simp
  next
    case False
    then show ?thesis using au by simp
  qed
  let ?s' = "s3\<lparr>heap := (heap s3)[c := (heap s3 ! c)\<lparr>inUse := True\<rparr>],
                 activeConnections := activeConnections s3 + 1\<rparr>"
  have res: "GetConnection_locked e s = (Inr c, ?s')"
    using sel hs hr au ar by (simp add: GetConnection_locked_def)
  have raw: "\<forall>a. rawConn (heap ?s' ! a) = rawConn (heap s3 ! a)"
    by (simp add: nth_update_field [where g = "\<lambda>x. x\<lparr>inUse := True\<rparr>"])
  have "recentConnections ?s' = recentConnections s1 \<and>
     closedConns ?s' = closedConns s1 \<and>
     length (heap ?s') = length (heap s1) \<and>
     (\<forall>a. a \<noteq> c \<longrightarrow> inUse (heap ?s' ! a) = inUse (heap s1 ! a)) \<and>
     (c < length (heap s1) \<longrightarrow> inUse (heap ?s' ! c)) \<and>
     (\<forall>a. rawConn (heap ?s' ! a) = rawConn (heap s1 ! a)) \<and>
     activeConnections ?s' = activeConnections s1 + 1 \<and>
     discardedConnections ?s' = discardedConnections s1 \<and>
     connectionsCreated ?s' = connectionsCreated s1 \<and>
     providers ?s' = providers s1 \<and> locked ?s' = locked s1"
    using hf af raw by simp
  then show ?thesis using res by blast
qed


lemma GetConnection_Some_unlocked: "GetConnection e s = Some x \<Longrightarrow> \<not> locked s"
  by (auto simp: GetConnection_def Lock_def split: if_splits)

lemma GetConnection_fails:
  assumes wf: "pool_wf s" and ul: "\<not> locked s"
    and sel: "select_connection e (s\<lparr>locked := True\<rparr>) = (Some c, s1)"
    and f: "setup_fails e c s1 err"
  shows "\<exists>s'. GetConnection e s = Some (Inl err, s') \<and>
     c \<notin> set (recentConnections s') \<and> rawConn (heap s' ! c) \<in> closedConns s' \<and>
     \<not> inUse (heap s' ! c) \<and> activeConnections s' = activeConnections s \<and>
     discardedConnections s' = discardedConnections s \<and> \<not> locked s'"
proof -
  have wf0: "pool_wf (s\<lparr>locked := True\<rparr>)" using wf by (simp add: pool_wf_def)
  note a = select_connection_some [OF wf0 sel]
  note b = select_connection_frame [OF sel]
  from GetConnection_locked_fails [OF sel f] obtain s' where
    r: "GetConnection_locked e (s\<lparr>locked := True\<rparr>) = (Inl err, s')" and
    p: "recentConnections s' = remove1 c (recentConnections s1)"
       "closedConns s' = insert (rawConn (heap s1 ! c)) (closedConns s1)"
       "\<forall>a. inUse (heap s' ! a) = inUse (heap s1 ! a) \<and>
          rawConn (heap s' ! a) = rawConn (heap s1 ! a)"
       "activeConnections s' = activeConnections s1"
       "discardedConnections s' = discardedConnections s1"
    by blast
  have d: "distinct (recentConnections s1)" using a by (simp add: pool_wf_def)
  have "GetConnection e s = Some (Inl err, Unlock s')"
    using ul r by (simp add: GetConnection_unlocked)
  moreover have "c \<notin> set (recentConnections (Unlock s'))"
    using p(1) d by (simp add: Unlock_def)
  moreover have "rawConn (heap (Unlock s') ! c) \<in> closedConns (Unlock s')"
    using p(2,3) by (simp add: Unlock_def)
  moreover have "\<not> inUse (heap (Unlock s') ! c)"
    using p(3) a by (simp add: Unlock_def)
  moreover have "activeConnections (Unlock s') = activeConnections s"
    using p(4) b by (simp add: Unlock_def)
  moreover have "discardedConnections (Unlock s') = discardedConnections s"
    using p(5) b by (simp add: Unlock_def)
  moreover have "\<not> locked (Unlock s')" by (simp add: Unlock_def)
  ultimately show ?thesis by blast
qed

lemma GetConnection_frame:
  assumes "GetConnection e s = Some (r, s')"
  shows "\<not> locked s' \<and> discardedConnections s' = discardedConnections s \<and>
     activeConnections s' = (case r of Inl err \<Rightarrow> activeConnections s
                             | Inr c \<Rightarrow> activeConnections s + 1)"
proof -
  let ?s0 = "s\<lparr>locked := True\<rparr>"
  have ul: "\<not> locked s" using assms by (rule GetConnection_Some_unlocked)
  obtain g s1 where sel: "select_connection e ?s0 = (g, s1)"
    by (cases "select_connection e ?s0")
  note b = select_connection_frame [OF sel]
  obtain s2 where r: "GetConnection_locked e ?s0 = (r, s2)" and s': "s' = Unlock s2"
    using assms ul by (auto simp: GetConnection_unlocked split: prod.splits)
  show ?thesis
  proof (cases g)
    case None
    then have "r = Inl (ErrorString ''no connections available'')" "s2 = s1"
      using sel r by (simp_all add: GetConnection_locked_def)
    then show ?thesis using b s' by (simp add: Unlock_def)
  next
    case (Some c)
    show ?thesis
    proof (cases "\<exists>err. setup_fails e c s1 err")
      case True
      then obtain err where f: "setup_fails e c s1 err" by blast
      from GetConnection_locked_fails [OF sel [unfolded Some] f] r
      show ?thesis using b s' by (auto simp: Unlock_def)
    next
      case False
      then have "\<forall>err. \<not> setup_fails e c s1 err" by blast
      from GetConnection_locked_succeeds [OF sel [unfolded Some] this] r
      show ?thesis using b s' by (auto simp: Unlock_def)
    qed
  qed
qed

text \<open>
  C5.  Let \<open>c\<close> be the connection \<^verbatim>\<open>GetConnection\<close> selects under the lock in a
  well-formed pool.  If its handshake fails, or authentication is enabled and its
  authentication fails, with the error \<open>err\<close>, then \<^verbatim>\<open>GetConnection\<close> returns \<open>err\<close>
  and no connection; afterwards \<open>c\<close> is no member of the pool, its transport is closed,
  it is not marked in use and the counter of active connections is what it was.
\<close>

theorem GetConnection_setup_failure:
  assumes "pool_wf s" and "\<not> locked s"
    and "select_connection e (s\<lparr>locked := True\<rparr>) = (Some c, s1)"
    and "setup_fails e c s1 err"
  shows "\<exists>s'. GetConnection e s = Some (Inl err, s') \<and>
     c \<notin> set (recentConnections s') \<and> rawConn (heap s' ! c) \<in> closedConns s' \<and>
     \<not> inUse (heap s' ! c) \<and> activeConnections s' = activeConnections s"
  using GetConnection_fails [OF assms] by blast

lemma idle_locked [simp]: "idle (s\<lparr>locked := b\<rparr>) = idle s"
  by (simp add: idle_def)

lemma handshake_dial [simp]: "handshake (e\<lparr>dial := d\<rparr>) c s = handshake e c s"
  by (simp add: handshake_def)

lemma authenticate_dial [simp]: "authenticate (e\<lparr>dial := d\<rparr>) c u p s = authenticate e c u p s"
  by (simp add: authenticate_def)

text \<open>
  C6.  When the pool's mutex is free and some member is idle, \<^verbatim>\<open>GetConnection\<close>
  selects the last idle member in the order of the scan: it returns that connection, or
  the error of that connection's set-up.  The provider list, the counter of created
  connections and the heap's size are what they were, and the result does not depend on
  what the providers would have answered: none is asked.
\<close>

theorem GetConnection_idle:
  assumes "\<not> locked s" and "idle s \<noteq> []"
  shows "\<exists>r s'. GetConnection e s = Some (r, s') \<and>
     providers s' = providers s \<and> connectionsCreated s' = connectionsCreated s \<and>
     length (heap s') = length (heap s) \<and>
     (case r of
        Inr g \<Rightarrow> g = last (idle s)
      | Inl err \<Rightarrow> setup_fails e (last (idle s)) (s\<lparr>locked := True\<rparr>) err) \<and>
     GetConnection (e\<lparr>dial := d\<rparr>) s = GetConnection e s"
proof -
  let ?s0 = "s\<lparr>locked := True\<rparr>"
  let ?c = "last (idle s)"
  have sel: "select_connection e ?s0 = (Some ?c, ?s0)" for e
    using assms(2) select_connection_idle [of ?s0 e] by simp
  have "GetConnection_locked (e\<lparr>dial := d\<rparr>) ?s0 = GetConnection_locked e ?s0"
    by (simp add: GetConnection_locked_def sel split: prod.splits option.splits)
  then have indep: "GetConnection (e\<lparr>dial := d\<rparr>) s = GetConnection e s"
    using assms(1) by (simp add: GetConnection_unlocked)
  show ?thesis
  proof (cases "\<exists>err. setup_fails e ?c ?s0 err")
    case True
    then obtain err where f: "setup_fails e ?c ?s0 err" by blast
    from GetConnection_locked_fails [OF sel f] obtain s' where
      "GetConnection_locked e ?s0 = (Inl err, s')" "length (heap s') = length (heap ?s0)"
      "connectionsCreated s' = connectionsCreated ?s0" "providers s' = providers ?s0"
      by blast
    then have "GetConnection e s = Some (Inl err, Unlock s') \<and>
       providers (Unlock s') = providers s \<and>
       connectionsCreated (Unlock s') = connectionsCreated s \<and>
       length (heap (Unlock s')) = length (heap s)"
      using assms(1) by (simp add: GetConnection_unlocked Unlock_def)
    then show ?thesis using f indep by force
  next
    case False
    then have "\<forall>err. \<not> setup_fails e ?c ?s0 err" by blast
    from GetConnection_locked_succeeds [OF sel this] obtain s' where
      "GetConnection_locked e ?s0 = (Inr ?c, s')" "length (heap s') = length (heap ?s0)"
      "connectionsCreated s' = connectionsCreated ?s0" "providers s' = providers ?s0"
      by blast
    then have "GetConnection e s = Some (Inr ?c, Unlock s') \<and>
       providers (Unlock s') = providers s \<and>
       connectionsCreated (Unlock s') = connectionsCreated s \<and>
       length (heap (Unlock s')) = length (heap s)"
      using assms(1) by (simp add: GetConnection_unlocked Unlock_def)
    then show ?thesis using indep by force
  qed
qed

text \<open>
  C10.  \<^verbatim>\<open>GetConnection\<close> never changes the counter of discarded connections, also
  when it discards the selected connection after a failed handshake or authentication
  (the connection leaves the membership and its transport is closed);
  \<^verbatim>\<open>DiscardConnection\<close> adds one to it; no other operation of the pool changes it.
\<close>

theorem discardedConnections_only_DiscardConnection:
  "(GetConnection e s = Some (r, s') \<longrightarrow> discardedConnections s' = discardedConnections s) \<and>
   (pool_wf s \<and> \<not> locked s \<and>
    select_connection e (s\<lparr>locked := True\<rparr>) = (Some c, s1) \<and> setup_fails e c s1 err \<longrightarrow>
      (\<exists>s2. GetConnection e s = Some (Inl err, s2) \<and> c \<notin> set (recentConnections s2) \<and>
         rawConn (heap s2 ! c) \<in> closedConns s2 \<and>
         discardedConnections s2 = discardedConnections s)) \<and>
   (DiscardConnection g s = Some s3 \<longrightarrow>
      discardedConnections s3 = discardedConnections s + 1) \<and>
   (ReturnConnection g s = Some s4 \<longrightarrow> discardedConnections s4 = discardedConnections s) \<and>
   discardedConnections (AddConnection t h s) = discardedConnections s \<and>
   discardedConnections (AddServer host port s) = discardedConnections s \<and>
   discardedConnections (AddLocator host port s) = discardedConnections s \<and>
   discardedConnections (AddCredentials u p s) = discardedConnections s"
proof (intro conjI impI)
  assume "GetConnection e s = Some (r, s')"
  from GetConnection_frame [OF this]
  show "discardedConnections s' = discardedConnections s" by simp
next
  assume a: "pool_wf s \<and> \<not> locked s \<and>
    select_connection e (s\<lparr>locked := True\<rparr>) = (Some c, s1) \<and> setup_fails e c s1 err"
  then have "\<exists>s'. GetConnection e s = Some (Inl err, s') \<and>
     c \<notin> set (recentConnections s') \<and> rawConn (heap s' ! c) \<in> closedConns s' \<and>
     \<not> inUse (heap s' ! c) \<and> activeConnections s' = activeConnections s \<and>
     discardedConnections s' = discardedConnections s \<and> \<not> locked s'"
    using GetConnection_fails [of s e c s1 err] by blast
  then show "\<exists>s2. GetConnection e s = Some (Inl err, s2) \<and> c \<notin> set (recentConnections s2) \<and>
         rawConn (heap s2 ! c) \<in> closedConns s2 \<and>
         discardedConnections s2 = discardedConnections s"
    by blast
next
  assume "DiscardConnection g s = Some s3"
  then show "discardedConnections s3 = discardedConnections s + 1"
    by (auto simp: DiscardConnection_def Lock_def Unlock_def discardConnection_def Let_def
        split: if_splits)
next
  assume "ReturnConnection g s = Some s4"
  then show "discardedConnections s4 = discardedConnections s"
    by (auto simp: ReturnConnection_def Lock_def Unlock_def split: if_splits)
qed (simp_all add: AddConnection_def AddServer_def AddLocator_def AddCredentials_def)

section \<open>The pool: concrete runs\<close>

lemmas pool_defs = busy_pool_def two_idle_pool_def fresh_pool_def NewPool_def AddConnection_def
  AddServer_def quiet_env_def refusing_env_def

theorem GetConnection_exhausted_witness:
  "\<not> locked busy_pool \<and> idle busy_pool = [] \<and>
   length (providers busy_pool) = 2 \<and>
   dial quiet_env 0 (providers busy_pool ! 0) (length (heap busy_pool)) = None \<and>
   dial quiet_env 1 (providers busy_pool ! 1) (length (heap busy_pool)) = None \<and>
   GetConnection quiet_env busy_pool =
     Some (Inl (ErrorString ''no connections available''), busy_pool\<lparr>providers := []\<rparr>)"
proof -
  have h1: "\<not> locked busy_pool" by (simp add: pool_defs)
  have h2: "idle busy_pool = []" by (simp add: idle_def pool_defs)
  have h3: "\<forall>i<length (providers busy_pool).
      dial quiet_env i (providers busy_pool ! i) (length (heap busy_pool)) = None"
    by (simp add: quiet_env_def)
  have h4: "length (providers busy_pool) = 2"
    "dial quiet_env 0 (providers busy_pool ! 0) (length (heap busy_pool)) = None"
    "dial quiet_env 1 (providers busy_pool ! 1) (length (heap busy_pool)) = None"
    by (simp_all add: pool_defs)
  show ?thesis by (intro conjI h1 h2 h4 GetConnection_exhausted [OF h1 h2 h3])
qed

theorem GetConnection_setup_failure_witness:
  "pool_wf fresh_pool \<and> \<not> locked fresh_pool \<and>
   select_connection refusing_env (fresh_pool\<lparr>locked := True\<rparr>) =
     (Some 0, fresh_pool\<lparr>locked := True\<rparr>) \<and>
   setup_fails refusing_env 0 (fresh_pool\<lparr>locked := True\<rparr>) IoEOF \<and>
   (\<exists>s'. GetConnection refusing_env fresh_pool = Some (Inl IoEOF, s') \<and>
      0 \<notin> set (recentConnections s') \<and> rawConn (heap s' ! 0) \<in> closedConns s' \<and>
      \<not> inUse (heap s' ! 0) \<and> activeConnections s' = activeConnections fresh_pool)"
proof -
  have h1: "pool_wf fresh_pool" by (simp add: pool_wf_def pool_defs)
  have h2: "\<not> locked fresh_pool" by (simp add: pool_defs)
  have h3: "select_connection refusing_env (fresh_pool\<lparr>locked := True\<rparr>) =
     (Some 0, fresh_pool\<lparr>locked := True\<rparr>)"
    by (simp add: select_connection_def pool_defs)
  have h4: "setup_fails refusing_env 0 (fresh_pool\<lparr>locked := True\<rparr>) IoEOF"
    by (simp add: setup_fails_def handshake_def pool_defs)
  show ?thesis by (intro conjI h1 h2 h3 h4 GetConnection_setup_failure [OF h1 h2 h3 h4])
qed

theorem GetConnection_idle_witness:
  "\<not> locked two_idle_pool \<and> idle two_idle_pool \<noteq> [] \<and>
   (\<exists>r s'. GetConnection quiet_env two_idle_pool = Some (r, s') \<and>
     providers s' = providers two_idle_pool \<and>
     connectionsCreated s' = connectionsCreated two_idle_pool \<and>
     length (heap s') = length (heap two_idle_pool) \<and>
     (case r of
        Inr g \<Rightarrow> g = last (idle two_idle_pool)
      | Inl err \<Rightarrow>
          setup_fails quiet_env (last (idle two_idle_pool)) (two_idle_pool\<lparr>locked := True\<rparr>) err) \<and>
     GetConnection (quiet_env\<lparr>dial := (\<lambda>i p a. Some 9)\<rparr>) two_idle_pool =
       GetConnection quiet_env two_idle_pool) \<and>
   last (idle two_idle_pool) = 1"
proof -
  have h1: "\<not> locked two_idle_pool" by (simp add: pool_defs)
  have i: "idle two_idle_pool = [0, 1]" by (simp add: idle_def pool_defs)
  then have h2: "idle two_idle_pool \<noteq> []" by simp
  have h3: "last (idle two_idle_pool) = 1" using i by simp
  show ?thesis by (intro conjI h1 h2 h3 GetConnection_idle [OF h1 h2])
qed

theorem discardedConnections_only_DiscardConnection_witness:
  "GetConnection refusing_env fresh_pool =
     Some (Inl IoEOF, fresh_pool\<lparr>recentConnections := [], closedConns := {7}\<rparr>) \<and>
   discardedConnections (fresh_pool\<lparr>recentConnections := [], closedConns := {7}\<rparr>) =
     discardedConnections fresh_pool \<and>
   DiscardConnection 0 fresh_pool =
     Some (fresh_pool\<lparr>recentConnections := [], closedConns := {7}, discardedConnections := 1\<rparr>) \<and>
   discardedConnections
     (fresh_pool\<lparr>recentConnections := [], closedConns := {7}, discardedConnections := 1\<rparr>) =
     discardedConnections fresh_pool + 1"
proof -
  let ?s1 = "fresh_pool\<lparr>recentConnections := [], closedConns := {7}\<rparr>"
  let ?s3 = "fresh_pool\<lparr>recentConnections := [], closedConns := {7}, discardedConnections := 1\<rparr>"
  have g: "GetConnection refusing_env fresh_pool = Some (Inl IoEOF, ?s1)"
    by (simp add: pool_defs GetConnection_def Lock_def Unlock_def GetConnection_locked_def
        select_connection_def handshake_def discardConnection_def)
  have d: "DiscardConnection 0 fresh_pool = Some ?s3"
    by (simp add: pool_defs DiscardConnection_def Lock_def Unlock_def discardConnection_def)
  note t = discardedConnections_only_DiscardConnection
    [where e = refusing_env and s = fresh_pool and r = "Inl IoEOF" and s' = ?s1 and g = 0
       and ?s3.0 = ?s3]
  have a: "discardedConnections ?s1 = discardedConnections fresh_pool" using t g by blast
  have b: "discardedConnections ?s3 = discardedConnections fresh_pool + 1" using t d by blast
  show ?thesis by (intro conjI g a d b)
qed

section \<open>The engine: what a call leaves behind\<close>

lemma evolves_refl: "evolves s s"
  by (simp add: evolves_def)

lemma evolves_trans: "evolves s t \<Longrightarrow> evolves t u \<Longrightarrow> evolves s u"
  unfolding evolves_def by (auto; force)

lemma select_connection_evolves:
  assumes wf: "pool_wf s" and sel: "select_connection e s = (r, s1)"
  shows "pool_wf s1 \<and> evolves s s1"
proof (cases "scan_recent (heap s) (recentConnections s) None")
  case (Some c)
  then have "s1 = s" using sel by (simp add: select_connection_def)
  then show ?thesis using wf by (simp add: evolves_refl)
next
  case None
  obtain r' s' where a: "ask_providers e (length (providers s)) s = (r', s')"
    by (cases "ask_providers e (length (providers s)) s")
  note f = ask_providers_frame [OF a]
  show ?thesis
  proof (cases r')
    case None
    then have s1: "s1 = s'" using sel \<open>scan_recent (heap s) (recentConnections s) None = None\<close> a
      by (simp add: select_connection_def)
    have "heap s' = heap s" "recentConnections s' = recentConnections s"
      "closedConns s' = closedConns s"
      using f None by simp_all
    then show ?thesis using wf s1 by (simp add: pool_wf_def evolves_def)
  next
    case (Some c)
    then have s1: "s1 = s'\<lparr>recentConnections := recentConnections s' @ [c],
                           connectionsCreated := connectionsCreated s' + 1\<rparr>"
      using sel \<open>scan_recent (heap s) (recentConnections s) None = None\<close> a
      by (simp add: select_connection_def)
    from f Some obtain t where h: "c = length (heap s)"
      "heap s' = heap s @ [\<lparr>rawConn = t, handshakeDone = False,
                                   authenticationDone = False, inUse = False\<rparr>]"
      "recentConnections s' = recentConnections s" "closedConns s' = closedConns s"
      by auto
    have old: "\<forall>x \<in> set (recentConnections s). x < length (heap s)"
      using wf by (simp add: pool_wf_def list_all_iff)
    have "pool_wf s1" using wf old s1 h by (auto simp: pool_wf_def list_all_iff)
    moreover have "evolves s s1" using s1 h by (auto simp: evolves_def nth_append)
    ultimately show ?thesis by simp
  qed
qed


lemma pool_wf_same:
  "recentConnections t = recentConnections s \<Longrightarrow> length (heap t) = length (heap s) \<Longrightarrow>
   pool_wf s \<Longrightarrow> pool_wf t"
  by (simp add: pool_wf_def)

lemma pool_wf_remove1:
  "recentConnections t = remove1 c (recentConnections s) \<Longrightarrow>
   length (heap t) = length (heap s) \<Longrightarrow> pool_wf s \<Longrightarrow> pool_wf t"
  using set_remove1_subset [of c "recentConnections s"]
  by (auto simp: pool_wf_def list_all_iff)

lemma evolves_same_heap_size:
  assumes "length (heap t) = length (heap s)" and "closedConns s \<subseteq> closedConns t"
    and "\<forall>a. rawConn (heap t ! a) = rawConn (heap s ! a)"
    and "set (recentConnections t) \<subseteq> set (recentConnections s)"
  shows "evolves s t"
  using assms by (auto simp: evolves_def)

lemma GetConnection_inv:
  assumes wf: "pool_wf s" and g: "GetConnection e s = Some (r, s')"
  shows "pool_wf s' \<and> evolves s s' \<and>
     (case r of Inl err \<Rightarrow> True | Inr c \<Rightarrow> c < length (heap s'))"
proof -
  let ?s0 = "s\<lparr>locked := True\<rparr>"
  have ul: "\<not> locked s" using g by (rule GetConnection_Some_unlocked)
  have wf0: "pool_wf ?s0" using wf by (simp add: pool_wf_def)
  have ev0: "evolves s ?s0" by (simp add: evolves_def)
  obtain g' s1 where sel: "select_connection e ?s0 = (g', s1)"
    by (cases "select_connection e ?s0")
  from select_connection_evolves [OF wf0 sel] have wf1: "pool_wf s1" and ev1: "evolves ?s0 s1"
    by simp_all
  obtain s2 where r: "GetConnection_locked e ?s0 = (r, s2)" and s': "s' = Unlock s2"
    using g ul by (auto simp: GetConnection_unlocked split: prod.splits)
  have un: "pool_wf s2 \<Longrightarrow> pool_wf s'" "evolves s1 s2 \<Longrightarrow> evolves s s'"
    "length (heap s') = length (heap s2)"
  proof -
    show "pool_wf s2 \<Longrightarrow> pool_wf s'" using s' by (simp add: Unlock_def pool_wf_def)
    have "evolves s2 s'" using s' by (simp add: Unlock_def evolves_def)
    then show "evolves s1 s2 \<Longrightarrow> evolves s s'"
      using ev0 ev1 by (blast intro: evolves_trans)
    show "length (heap s') = length (heap s2)" using s' by (simp add: Unlock_def)
  qed
  show ?thesis
  proof (cases g')
    case None
    then have "r = Inl (ErrorString ''no connections available'')" "s2 = s1"
      using sel r by (simp_all add: GetConnection_locked_def)
    then show ?thesis using un wf1 by (simp add: evolves_refl)
  next
    case (Some c)
    note sel' = sel [unfolded Some]
    note a = select_connection_some [OF wf0 sel']
    show ?thesis
    proof (cases "\<exists>err. setup_fails e c s1 err")
      case True
      then obtain err where f: "setup_fails e c s1 err" by blast
      from GetConnection_locked_fails [OF sel' f] r
      have r': "r = Inl err" and
        p: "recentConnections s2 = remove1 c (recentConnections s1)"
           "closedConns s2 = insert (rawConn (heap s1 ! c)) (closedConns s1)"
           "length (heap s2) = length (heap s1)"
           "\<forall>a. inUse (heap s2 ! a) = inUse (heap s1 ! a) \<and>
              rawConn (heap s2 ! a) = rawConn (heap s1 ! a)"
        by auto
      have "pool_wf s2" using pool_wf_remove1 [OF p(1) p(3) wf1] .
      moreover have "evolves s1 s2"
        using p set_remove1_subset [of c "recentConnections s1"]
        by (intro evolves_same_heap_size) auto
      ultimately show ?thesis using un r' by simp
    next
      case False
      then have "\<forall>err. \<not> setup_fails e c s1 err" by blast
      from GetConnection_locked_succeeds [OF sel' this] r
      have r': "r = Inr c" and
        p: "recentConnections s2 = recentConnections s1"
           "closedConns s2 = closedConns s1"
           "length (heap s2) = length (heap s1)"
           "\<forall>a. rawConn (heap s2 ! a) = rawConn (heap s1 ! a)"
        by auto
      have "pool_wf s2" using pool_wf_same [OF p(1) p(3) wf1] .
      moreover have "evolves s1 s2"
        using p by (intro evolves_same_heap_size) auto
      moreover have "c < length (heap s')" using a p(3) un(3) by simp
      ultimately show ?thesis using un r' by simp
    qed
  qed
qed

lemma DiscardConnection_inv:
  assumes wf: "pool_wf s" and d: "DiscardConnection g s = Some s'"
  shows "pool_wf s' \<and> evolves s s' \<and> \<not> locked s' \<and>
     activeConnections s' = activeConnections s \<and> g \<notin> set (recentConnections s') \<and>
     rawConn (heap s ! g) \<in> closedConns s' \<and> heap s' = heap s"
proof -
  have f: "recentConnections s' = remove1 g (recentConnections s)"
    "closedConns s' = insert (rawConn (heap s ! g)) (closedConns s)"
    "heap s' = heap s" "\<not> locked s'" "activeConnections s' = activeConnections s"
    using d
    by (auto simp: DiscardConnection_def Lock_def Unlock_def discardConnection_def Let_def
        split: if_splits)
  have "distinct (recentConnections s)" using wf by (simp add: pool_wf_def)
  then have "g \<notin> set (recentConnections s')" using f(1) by simp
  moreover have "pool_wf s'" using pool_wf_remove1 [OF f(1) _ wf] f(3) by simp
  moreover have "evolves s s'"
    using f set_remove1_subset [of g "recentConnections s"]
    by (intro evolves_same_heap_size) auto
  ultimately show ?thesis using f by simp
qed

lemma ReturnConnection_inv:
  assumes wf: "pool_wf s" and d: "ReturnConnection g s = Some s'"
  shows "pool_wf s' \<and> evolves s s' \<and> \<not> locked s' \<and>
     activeConnections s' = activeConnections s - 1 \<and>
     recentConnections s' = recentConnections s \<and> closedConns s' = closedConns s \<and>
     (\<forall>a. rawConn (heap s' ! a) = rawConn (heap s ! a)) \<and>
     (g < length (heap s) \<longrightarrow> \<not> inUse (heap s' ! g))"
proof -
  have f: "recentConnections s' = recentConnections s" "closedConns s' = closedConns s"
    "heap s' = (heap s)[g := (heap s ! g)\<lparr>inUse := False\<rparr>]" "\<not> locked s'"
    "activeConnections s' = activeConnections s - 1"
    using d by (auto simp: ReturnConnection_def Lock_def Unlock_def split: if_splits)
  have raw: "\<forall>a. rawConn (heap s' ! a) = rawConn (heap s ! a)"
    using f(3) by (simp add: nth_update_field [where g = "\<lambda>x. x\<lparr>inUse := False\<rparr>"])
  have len: "length (heap s') = length (heap s)" using f(3) by simp
  have "pool_wf s'" using pool_wf_same [OF f(1) len wf] .
  moreover have "evolves s s'" using f(1,2) raw len by (intro evolves_same_heap_size) simp_all
  ultimately show ?thesis using f raw by simp
qed


lemma doOperation_Suc_conn:
  assumes "GetConnection e s = Some (Inr g, s1)"
  shows "doOperation (Suc n) e req s =
    (case doOperationWithConnection e (rawConn (heap s1 ! g)) req of
       Inr m \<Rightarrow> (case ReturnConnection g s1 of None \<Rightarrow> None | Some s4 \<Rightarrow> Some (Inr m, s4))
     | Inl err \<Rightarrow>
         (case DiscardConnection g s1 of
            None \<Rightarrow> None
          | Some s2 \<Rightarrow>
              (case (if is_RetryableError err then doOperation n e req s2
                     else Some (Inl err, s2)) of
                 None \<Rightarrow> None
               | Some (r, s3) \<Rightarrow>
                   (case ReturnConnection g s3 of
                      None \<Rightarrow> None
                    | Some s4 \<Rightarrow> Some (r, s4)))))"
  using assms by (simp split: sum.splits option.splits)

lemma doOperation_Suc_noconn:
  assumes "GetConnection e s = Some (Inl err, s1)"
  shows "doOperation (Suc n) e req s = Some (Inl err, s1)"
  using assms by simp

lemma doOperation_Suc_blocked:
  assumes "GetConnection e s = None"
  shows "doOperation (Suc n) e req s = None"
  using assms by simp

lemma doOperation_inv:
  "pool_wf s \<Longrightarrow> doOperation n e req s = Some (r, s') \<Longrightarrow>
   pool_wf s' \<and> evolves s s' \<and> activeConnections s' = activeConnections s"
proof (induction n arbitrary: s r s')
  case 0
  then show ?case by simp
next
  case (Suc n)
  show ?case
  proof (cases "GetConnection e s")
    case None
    then show ?thesis using Suc.prems(2) by simp
  next
    case (Some x)
    obtain gr s1 where x: "x = (gr, s1)" by (cases x)
    note g = Some [unfolded x]
    note gi = GetConnection_inv [OF Suc.prems(1) g]
    note gf = GetConnection_frame [OF g]
    show ?thesis
    proof (cases gr)
      case (Inl err)
      then have "r = Inl err" "s' = s1"
        using Suc.prems(2) doOperation_Suc_noconn [OF g [unfolded Inl]] by simp_all
      then show ?thesis using gi gf Inl by simp
    next
      case (Inr c)
      note g' = g [unfolded Inr]
      note u = doOperation_Suc_conn [OF g', of n req]
      have wf1: "pool_wf s1" and ev1: "evolves s s1" using gi by simp_all
      have act1: "activeConnections s1 = activeConnections s + 1" using gf Inr by simp
      show ?thesis
      proof (cases "doOperationWithConnection e (rawConn (heap s1 ! c)) req")
        case (Inr m)
        then have rc: "ReturnConnection c s1 = Some s'"
          using Suc.prems(2) u by (auto split: option.splits)
        from ReturnConnection_inv [OF wf1 rc] show ?thesis
          using ev1 act1 by (auto intro: evolves_trans)
      next
        case (Inl err)
        then obtain s2 where d: "DiscardConnection c s1 = Some s2"
          using Suc.prems(2) u by (auto split: option.splits)
        note di = DiscardConnection_inv [OF wf1 d]
        obtain r3 s3 where
          m: "(if is_RetryableError err then doOperation n e req s2 else Some (Inl err, s2))
                = Some (r3, s3)"
          and rc: "ReturnConnection c s3 = Some s'"
          using Suc.prems(2) u Inl d by (auto split: option.splits)
        have mid: "pool_wf s3 \<and> evolves s2 s3 \<and> activeConnections s3 = activeConnections s2"
        proof (cases "is_RetryableError err")
          case True
          then have "doOperation n e req s2 = Some (r3, s3)" using m by simp
          from Suc.IH [OF _ this] di show ?thesis by simp
        next
          case False
          then have "s3 = s2" using m by simp
          then show ?thesis using di by (simp add: evolves_refl)
        qed
        from ReturnConnection_inv [OF _ rc] mid
        have "pool_wf s'" "evolves s3 s'" "activeConnections s' = activeConnections s3 - 1"
          by simp_all
        moreover have "evolves s s3" using ev1 di mid by (blast intro: evolves_trans)
        ultimately show ?thesis using act1 di mid by (auto intro: evolves_trans)
      qed
    qed
  qed
qed

text \<open>
  C9.  Take a call of \<^verbatim>\<open>doOperation\<close> on a well-formed pool that obtains the connection
  \<open>gConn\<close> from the pool and completes.  Its final state is the state a call of
  \<^verbatim>\<open>ReturnConnection\<close> on \<open>gConn\<close> leaves: \<open>gConn\<close> is not in use and the counter of
  active connections is what it was before the call.  This includes every path on which
  the exchange on \<open>gConn\<close> failed: there \<^verbatim>\<open>DiscardConnection\<close> ran on \<open>gConn\<close> first, so
  at the end \<open>gConn\<close> is no member of the pool and its transport is closed, and the
  deferred return has cleared its in-use flag and taken one off the counter all the same.
\<close>

theorem doOperation_returns_connection:
  assumes wf: "pool_wf s"
    and g: "GetConnection e s = Some (Inr gConn, s1)"
    and run: "doOperation (Suc n) e request s = Some (r, s')"
  shows "(\<exists>s3. ReturnConnection gConn s3 = Some s') \<and>
     \<not> inUse (heap s' ! gConn) \<and>
     activeConnections s' = activeConnections s \<and>
     (\<forall>err. doOperationWithConnection e (rawConn (heap s1 ! gConn)) request = Inl err \<longrightarrow>
        (\<exists>s2. DiscardConnection gConn s1 = Some s2) \<and>
        gConn \<notin> set (recentConnections s') \<and>
        rawConn (heap s' ! gConn) \<in> closedConns s')"
proof -
  note gi = GetConnection_inv [OF wf g]
  have wf1: "pool_wf s1" and c1: "gConn < length (heap s1)" using gi by simp_all
  note u = doOperation_Suc_conn [OF g, of n request]
  have act: "activeConnections s' = activeConnections s"
    using doOperation_inv [OF wf run] by simp
  show ?thesis
  proof (cases "doOperationWithConnection e (rawConn (heap s1 ! gConn)) request")
    case (Inr m)
    then have rc: "ReturnConnection gConn s1 = Some s'"
      using run u by (auto split: option.splits)
    from ReturnConnection_inv [OF wf1 rc] c1 have "\<not> inUse (heap s' ! gConn)" by simp
    then show ?thesis using rc act Inr by auto
  next
    case (Inl err)
    then obtain s2 where d: "DiscardConnection gConn s1 = Some s2"
      using run u by (auto split: option.splits)
    note di = DiscardConnection_inv [OF wf1 d]
    obtain r3 s3 where
      m: "(if is_RetryableError err then doOperation n e request s2 else Some (Inl err, s2))
            = Some (r3, s3)"
      and rc: "ReturnConnection gConn s3 = Some s'"
      using run u Inl d by (auto split: option.splits)
    have mid: "pool_wf s3 \<and> evolves s2 s3"
    proof (cases "is_RetryableError err")
      case True
      then have "doOperation n e request s2 = Some (r3, s3)" using m by simp
      from doOperation_inv [OF _ this] di show ?thesis by simp
    next
      case False
      then have "s3 = s2" using m by simp
      then show ?thesis using di by (simp add: evolves_refl)
    qed
    have c2: "gConn < length (heap s2)" using c1 di by simp
    have c3: "gConn < length (heap s3)" using c2 mid by (simp add: evolves_def)
    have out3: "gConn \<notin> set (recentConnections s3)"
      using mid di c2 by (simp add: evolves_def)
    have raw3: "rawConn (heap s3 ! gConn) = rawConn (heap s1 ! gConn)"
      using mid di c2 by (simp add: evolves_def)
    have cl3: "rawConn (heap s1 ! gConn) \<in> closedConns s3"
      using mid di by (auto simp: evolves_def)
    note ri = ReturnConnection_inv [OF _ rc]
    have "\<not> inUse (heap s' ! gConn)" using ri mid c3 by simp
    moreover have "gConn \<notin> set (recentConnections s')" using ri mid out3 by simp
    moreover have "rawConn (heap s' ! gConn) \<in> closedConns s'"
      using ri mid raw3 cl3 by simp
    ultimately show ?thesis using rc d act by blast
  qed
qed


section \<open>The engine: concrete runs\<close>

lemmas run_defs = pool_defs retry_pool_def flaky_env_def GetConnection_def Lock_def Unlock_def
  GetConnection_locked_def select_connection_def handshake_def authenticate_def
  discardConnection_def GetGeodeConnection_def DiscardConnection_def ReturnConnection_def
  doOperationWithConnection_def writeMessage_def

theorem doOperation_returns_connection_witness:
  "pool_wf retry_pool \<and>
   GetConnection flaky_env retry_pool =
     Some (Inr 0,
       retry_pool\<lparr>heap := [\<lparr>rawConn = 7, handshakeDone = True, authenticationDone = False,
                               inUse = True\<rparr>],
         activeConnections := 1\<rparr>) \<and>
   doOperationWithConnection flaky_env 7 (OtherMessage ''put'') = Inl (RetryableError IoEOF) \<and>
   doOperation (Suc (Suc 0)) flaky_env (OtherMessage ''put'') retry_pool =
     Some (Inr (OtherMessage ''ok''),
       retry_pool\<lparr>recentConnections := [1],
         heap := [\<lparr>rawConn = 7, handshakeDone = True, authenticationDone = False,
                    inUse = False\<rparr>,
                  \<lparr>rawConn = 8, handshakeDone = True, authenticationDone = False,
                    inUse = False\<rparr>],
         closedConns := {7}, connectionsCreated := 1, discardedConnections := 1\<rparr>) \<and>
   (\<exists>s'. doOperation (Suc (Suc 0)) flaky_env (OtherMessage ''put'') retry_pool =
            Some (Inr (OtherMessage ''ok''), s') \<and>
      (\<exists>s3. ReturnConnection 0 s3 = Some s') \<and> \<not> inUse (heap s' ! 0) \<and>
      activeConnections s' = activeConnections retry_pool \<and>
      0 \<notin> set (recentConnections s') \<and> rawConn (heap s' ! 0) \<in> closedConns s')"
proof -
  let ?s1 = "retry_pool\<lparr>heap := [\<lparr>rawConn = 7, handshakeDone = True, authenticationDone = False,
                               inUse = True\<rparr>],
         activeConnections := 1\<rparr>"
  let ?s' = "retry_pool\<lparr>recentConnections := [1],
         heap := [\<lparr>rawConn = 7, handshakeDone = True, authenticationDone = False,
                    inUse = False\<rparr>,
                  \<lparr>rawConn = 8, handshakeDone = True, authenticationDone = False,
                    inUse = False\<rparr>],
         closedConns := {7}, connectionsCreated := 1, discardedConnections := 1\<rparr>"
  have wf: "pool_wf retry_pool" by (simp add: pool_wf_def run_defs)
  have g: "GetConnection flaky_env retry_pool = Some (Inr 0, ?s1)" by (simp add: run_defs)
  have w: "doOperationWithConnection flaky_env 7 (OtherMessage ''put'') =
      Inl (RetryableError IoEOF)"
    by (simp add: run_defs)
  have w': "doOperationWithConnection flaky_env (rawConn (heap ?s1 ! 0)) (OtherMessage ''put'') =
      Inl (RetryableError IoEOF)"
    using w by simp
  have run: "doOperation (Suc (Suc 0)) flaky_env (OtherMessage ''put'') retry_pool =
     Some (Inr (OtherMessage ''ok''), ?s')"
    by (simp add: run_defs)
  note t = doOperation_returns_connection [OF wf g run]
  have "(\<exists>s3. ReturnConnection 0 s3 = Some ?s') \<and> \<not> inUse (heap ?s' ! 0) \<and>
      activeConnections ?s' = activeConnections retry_pool \<and>
      0 \<notin> set (recentConnections ?s') \<and> rawConn (heap ?s' ! 0) \<in> closedConns ?s'"
    using t w' by blast
  then show ?thesis using wf g w run by blast
qed



section \<open>GetAll: what becomes of a response\<close>









lemma has_key_nonempty: "has_key m k \<Longrightarrow> m \<noteq> []"
  by (auto simp: has_key_def)



section \<open>GetAll: concrete runs\<close>




section \<open>The pool's mutex\<close>

text \<open>
  C8 asks that every change of the membership, of the provider list, of the credentials and
  of an in-use flag be made while the pool's one mutex is held.  \<^verbatim>\<open>GetConnection\<close>,
  \<^verbatim>\<open>ReturnConnection\<close> and \<^verbatim>\<open>DiscardConnection\<close> take the mutex: while another
  caller holds it they wait.  \<^verbatim>\<open>AddConnection\<close>, \<^verbatim>\<open>AddServer\<close> and
  \<^verbatim>\<open>AddCredentials\<close> do not take it: while another caller holds the mutex they change
  the membership, the provider list and the credentials, and they leave the mutex as it
  is.
\<close>

theorem Add_operations_take_no_lock:
  "locked held_pool \<and>
   GetConnection quiet_env held_pool = None \<and>
   ReturnConnection 0 held_pool = None \<and>
   DiscardConnection 0 held_pool = None \<and>
   recentConnections held_pool = [0] \<and>
   recentConnections (AddConnection 9 True held_pool) = [0, 1] \<and>
   providers held_pool = [] \<and>
   providers (AddServer ''b'' 2 held_pool) = [serverConnectionProvider ''b'' 2] \<and>
   authenticationEnabled held_pool = False \<and>
   authenticationEnabled (AddCredentials ''u'' ''p'' held_pool) = True \<and>
   username (AddCredentials ''u'' ''p'' held_pool) = ''u'' \<and>
   locked (AddConnection 9 True held_pool)"
  by (simp add: held_pool_def pool_defs GetConnection_def ReturnConnection_def
      DiscardConnection_def Lock_def AddCredentials_def)

end
